theory Spec2Isabelle
  imports Complex_Main "HOL-Library.Char_ord" "HOL-Library.List_Lexorder" "HOL-Library.Multiset"
begin

section \<open>Data model (game.hpp)\<close>

text \<open>
  The C++ \<^verbatim>\<open>int\<close> members are modelled as \<^typ>\<open>int\<close>: grid coordinates and the score
  stay far from the 32-bit limits (the score grows by 10 per food on a 30 x 20 grid), and
  the integers read from a file are range-checked where they are parsed
  (\<open>read_int\<close> below). The fields of \<^verbatim>\<open>Position\<close> and \<^verbatim>\<open>ScoreEntry\<close> are
  prefixed (\<open>pos_x\<close>, \<open>entry_score\<close>) so that they do not capture the variables
  \<open>x\<close>, \<open>y\<close> and the field \<open>score\<close> of the game.
\<close>

record Position =
  pos_x :: int
  pos_y :: int

definition pos_eq :: "Position \<Rightarrow> Position \<Rightarrow> bool" where
  \<comment> \<open>\<^verbatim>\<open>Position::operator==\<close>\<close>
  "pos_eq a other = (pos_x a = pos_x other \<and> pos_y a = pos_y other)"

record ScoreEntry =
  entry_name :: string
  entry_score :: int

definition entry_less :: "ScoreEntry \<Rightarrow> ScoreEntry \<Rightarrow> bool" where
  \<comment> \<open>\<^verbatim>\<open>ScoreEntry::operator<\<close>: a higher score sorts first\<close>
  "entry_less a other = (entry_score a > entry_score other)"

datatype Direction = UP | DOWN | LEFT | RIGHT

datatype GameState = MENU | PLAYING | PAUSED | GAME_OVER | LEADERBOARD | SETTINGS

definition GRID_WIDTH :: int where "GRID_WIDTH = 30"
definition GRID_HEIGHT :: int where "GRID_HEIGHT = 20"
definition MAX_LEADERBOARD_ENTRIES :: nat where "MAX_LEADERBOARD_ENTRIES = 10"
definition MAX_OBSTACLES :: nat where "MAX_OBSTACLES = 100"

text \<open>
  The members of \<^verbatim>\<open>class Game\<close> that the logic reads or writes (the timers, the font and
  the colours are left to the presentation layer), together with the environment the
  methods act on: \<open>files\<close> maps a file name to the content an \<^verbatim>\<open>ifstream\<close> would read
  (\<open>None\<close>: the stream does not open), and \<open>writable\<close> says whether an \<^verbatim>\<open>ofstream\<close>
  on that name opens.
\<close>

record Game =
  currentState :: GameState
  snake :: "Position list"
  food :: Position
  obstacles :: "Position list"
  currentDirection :: Direction
  nextDirection :: Direction
  score :: int
  overallHighestScore :: int
  personalBestScore :: int
  playerName :: string
  leaderboard :: "ScoreEntry list"
  selectedMenuItem :: int
  gameRunning :: bool
  showGrid :: bool
  files :: "string \<Rightarrow> string option"
  writable :: "string \<Rightarrow> bool"

section \<open>Snake simulation\<close>

subsection \<open>Collision (Game::checkCollision)\<close>

text \<open>\<^verbatim>\<open>std::deque::front()\<close> on an empty deque is undefined behaviour: \<open>None\<close>.\<close>

definition front :: "'a list \<Rightarrow> 'a option" where
  "front xs = (case xs of [] \<Rightarrow> None | a # _ \<Rightarrow> Some a)"

text \<open>\<^verbatim>\<open>for (size_t i = 1; i < snake.size(); ++i) if (snake[i] == head) return true;\<close>\<close>

function hits_body :: "Position list \<Rightarrow> nat \<Rightarrow> Position \<Rightarrow> bool" where
  "hits_body sn i head =
     (if i < length sn then (if pos_eq (sn ! i) head then True else hits_body sn (Suc i) head)
      else False)"
  by pat_completeness auto
termination
  by (relation "measure (\<lambda>(sn, i, head). length sn - i)") auto

declare hits_body.simps [simp del]

text \<open>\<^verbatim>\<open>for (const auto& obs : obstacles) if (obs == head) return true;\<close>\<close>

fun hits_any :: "Position list \<Rightarrow> Position \<Rightarrow> bool" where
  "hits_any [] head = False"
| "hits_any (obs # rest) head = (if pos_eq obs head then True else hits_any rest head)"

definition checkCollision :: "Game \<Rightarrow> bool option" where
  "checkCollision g =
     (case front (snake g) of
        None \<Rightarrow> None
      | Some head \<Rightarrow>
          Some (if pos_x head < 0 \<or> pos_x head \<ge> GRID_WIDTH \<or> pos_y head < 0 \<or> pos_y head \<ge> GRID_HEIGHT
                then True
                else if hits_body (snake g) 1 head then True
                else if hits_any (obstacles g) head then True
                else False))"

section \<open>Persistence: reading the text files\<close>

text \<open>
  The files are read with \<^verbatim>\<open>file >> x\<close> on a \<^verbatim>\<open>std::ifstream\<close> in the classic locale. The
  stream is modelled by the characters that are still unread; a failed extraction sets
  \<^verbatim>\<open>failbit\<close>, which no function of the game ever clears, so every later extraction
  fails too: a failure is \<open>None\<close> and ends the reading loop.
\<close>

definition isspace :: "char \<Rightarrow> bool" where
  "isspace c = (c = CHR '' '' \<or> c = CHR 0x09 \<or> c = CHR 0x0A \<or> c = CHR 0x0B \<or> c = CHR 0x0C \<or> c = CHR 0x0D)"

definition isdigit :: "char \<Rightarrow> bool" where
  "isdigit c = (c \<in> set ''0123456789'')"

definition digit_val :: "char \<Rightarrow> int" where
  "digit_val c = int (of_char c) - 48"

definition decimal :: "string \<Rightarrow> int" where
  "decimal ds = foldl (\<lambda>n c. 10 * n + digit_val c) 0 ds"

definition INT_MAX :: int where "INT_MAX = 2147483647"
definition INT_MIN :: int where "INT_MIN = - 2147483648"

text \<open>
  \<^verbatim>\<open>file >> x\<close> for an \<^verbatim>\<open>int\<close>: leading white space is skipped, then an optional sign and
  the longest run of decimal digits are taken. The extraction fails when there is no
  digit or when the value does not fit an \<^verbatim>\<open>int\<close>; the characters after the digits stay
  in the stream.
\<close>

definition strip_sign :: "string \<Rightarrow> string" where
  "strip_sign s1 = (case s1 of [] \<Rightarrow> [] | c # r \<Rightarrow> if c = CHR ''-'' \<or> c = CHR ''+'' then r else s1)"

definition read_int :: "string \<Rightarrow> (int \<times> string) option" where
  "read_int s =
     (let s1 = dropWhile isspace s;
          neg = (case s1 of [] \<Rightarrow> False | c # _ \<Rightarrow> c = CHR ''-'');
          s2 = strip_sign s1;
          ds = takeWhile isdigit s2;
          v = (if neg then - decimal ds else decimal ds)
      in if ds = [] \<or> v < INT_MIN \<or> INT_MAX < v then None
         else Some (v, dropWhile isdigit s2))"

text \<open>
  \<^verbatim>\<open>file >> name\<close> for a \<^verbatim>\<open>std::string\<close>: leading white space is skipped and the characters
  up to the next white space are taken; the extraction fails when none is left.
\<close>

definition read_word :: "string \<Rightarrow> (string \<times> string) option" where
  "read_word s =
     (let s1 = dropWhile isspace s;
          w = takeWhile (\<lambda>c. \<not> isspace c) s1
      in if w = [] then None else Some (w, dropWhile (\<lambda>c. \<not> isspace c) s1))"

text \<open>\<^verbatim>\<open>file >> x >> y\<close> and \<^verbatim>\<open>file >> name >> score\<close>: the second extraction is tried only
  when the first succeeded.\<close>

definition read_xy :: "string \<Rightarrow> ((int \<times> int) \<times> string) option" where
  "read_xy s =
     (case read_int s of
        None \<Rightarrow> None
      | Some (x, s1) \<Rightarrow> (case read_int s1 of None \<Rightarrow> None | Some (y, s2) \<Rightarrow> Some ((x, y), s2)))"

definition read_name_score :: "string \<Rightarrow> ((string \<times> int) \<times> string) option" where
  "read_name_score s =
     (case read_word s of
        None \<Rightarrow> None
      | Some (name, s1) \<Rightarrow>
          (case read_int s1 of None \<Rightarrow> None | Some (sc, s2) \<Rightarrow> Some ((name, sc), s2)))"

lemma read_int_shorter: "read_int s = Some (v, r) \<Longrightarrow> length r < length s"
proof -
  assume a: "read_int s = Some (v, r)"
  define s1 where "s1 = dropWhile isspace s"
  define s2 where "s2 = strip_sign s1"
  from a have ne: "takeWhile isdigit s2 \<noteq> []" and r: "r = dropWhile isdigit s2"
    by (auto simp: read_int_def Let_def s1_def s2_def split: if_splits)
  have "length s2 = length (takeWhile isdigit s2) + length (dropWhile isdigit s2)"
    by (metis length_append takeWhile_dropWhile_id)
  with ne r have "length r < length s2" by (cases "takeWhile isdigit s2") auto
  moreover have "length s2 \<le> length s1" by (auto simp: s2_def strip_sign_def split: list.splits)
  moreover have "length s1 \<le> length s" by (simp add: s1_def length_dropWhile_le)
  ultimately show ?thesis by linarith
qed

lemma read_word_shorter: "read_word s = Some (w, r) \<Longrightarrow> length r < length s"
proof -
  assume a: "read_word s = Some (w, r)"
  define s1 where "s1 = dropWhile isspace s"
  from a have ne: "takeWhile (\<lambda>c. \<not> isspace c) s1 \<noteq> []" and r: "r = dropWhile (\<lambda>c. \<not> isspace c) s1"
    by (auto simp: read_word_def Let_def s1_def split: if_splits)
  have "length s1 = length (takeWhile (\<lambda>c. \<not> isspace c) s1) + length (dropWhile (\<lambda>c. \<not> isspace c) s1)"
    by (metis length_append takeWhile_dropWhile_id)
  with ne r have "length r < length s1" by (cases "takeWhile (\<lambda>c. \<not> isspace c) s1") auto
  moreover have "length s1 \<le> length s" by (simp add: s1_def length_dropWhile_le)
  ultimately show ?thesis by linarith
qed

lemma read_xy_shorter: "read_xy s = Some (p, r) \<Longrightarrow> length r < length s"
  by (auto simp: read_xy_def split: option.splits dest!: read_int_shorter)

lemma read_name_score_shorter: "read_name_score s = Some (p, r) \<Longrightarrow> length r < length s"
  by (auto simp: read_name_score_def split: option.splits dest!: read_int_shorter read_word_shorter)

text \<open>
  The records that \<^verbatim>\<open>while (file >> x >> y ...)\<close> and \<^verbatim>\<open>while (file >> name >> score)\<close>
  iterate over: the pairs extracted one after the other, up to the first extraction that
  fails.
\<close>

function xy_records :: "string \<Rightarrow> (int \<times> int) list" where
  "xy_records s = (case read_xy s of None \<Rightarrow> [] | Some (p, rest) \<Rightarrow> p # xy_records rest)"
  by pat_completeness auto
termination
  by (relation "measure length") (auto dest: read_xy_shorter)

declare xy_records.simps [simp del]

function name_score_records :: "string \<Rightarrow> (string \<times> int) list" where
  "name_score_records s =
     (case read_name_score s of None \<Rightarrow> [] | Some (p, rest) \<Rightarrow> p # name_score_records rest)"
  by pat_completeness auto
termination
  by (relation "measure length") (auto dest: read_name_score_shorter)

declare name_score_records.simps [simp del]

subsection \<open>Obstacles (Game::loadObstacles)\<close>

text \<open>
  The loop body and the second half of its condition: a pair has been read; the loop
  goes on only while fewer than \<^verbatim>\<open>MAX_OBSTACLES\<close> obstacles are held.
\<close>

fun loadObstacles_loop :: "(int \<times> int) list \<Rightarrow> Position list \<Rightarrow> Position list" where
  "loadObstacles_loop [] obs = obs"
| "loadObstacles_loop ((x, y) # rest) obs =
     (if length obs < MAX_OBSTACLES
      then loadObstacles_loop rest
             (if x \<ge> 0 \<and> x < GRID_WIDTH \<and> y \<ge> 0 \<and> y < GRID_HEIGHT
              then obs @ [\<lparr>pos_x = x, pos_y = y\<rparr>] else obs)
      else obs)"

definition loadObstacles :: "string \<Rightarrow> Game \<Rightarrow> Game" where
  "loadObstacles filename g =
     (case files g filename of
        None \<Rightarrow> g\<lparr>obstacles := []\<rparr>
      | Some content \<Rightarrow> g\<lparr>obstacles := loadObstacles_loop (xy_records content) []\<rparr>)"

subsection \<open>Best scores (Game::loadHighestScores)\<close>

fun loadHighestScores_loop :: "(string \<times> int) list \<Rightarrow> Game \<Rightarrow> Game" where
  "loadHighestScores_loop [] g = g"
| "loadHighestScores_loop ((name, sc) # rest) g =
     (let g1 = (if sc > overallHighestScore g then g\<lparr>overallHighestScore := sc\<rparr> else g);
          g2 = (if name = playerName g1 \<and> sc > personalBestScore g1
                then g1\<lparr>personalBestScore := sc\<rparr> else g1)
      in loadHighestScores_loop rest g2)"

definition loadHighestScores :: "Game \<Rightarrow> Game" where
  "loadHighestScores g =
     (let g0 = g\<lparr>overallHighestScore := 0, personalBestScore := 0\<rparr>
      in case files g0 ''user_scores.txt'' of
           None \<Rightarrow> g0
         | Some content \<Rightarrow> loadHighestScores_loop (name_score_records content) g0)"

section \<open>Persistence: writing the text files\<close>

text \<open>\<^verbatim>\<open>file << n\<close> for an \<^verbatim>\<open>int\<close>: the decimal digits, after a minus sign when negative.\<close>

definition digit_char :: "nat \<Rightarrow> char" where
  "digit_char d = char_of (48 + d)"

function show_nat :: "nat \<Rightarrow> string" where
  "show_nat n = (if n < 10 then [digit_char n] else show_nat (n div 10) @ [digit_char (n mod 10)])"
  by pat_completeness auto
termination
  by (relation "measure id") auto

declare show_nat.simps [simp del]

definition show_int :: "int \<Rightarrow> string" where
  "show_int i = (if i < 0 then CHR ''-'' # show_nat (nat (- i)) else show_nat (nat i))"

text \<open>\<^verbatim>\<open>file << name << " " << score << "\n"\<close>, once for every element.\<close>

definition score_line :: "string \<Rightarrow> int \<Rightarrow> string" where
  "score_line name sc = name @ '' '' @ show_int sc @ [CHR 0x0A]"

definition write_leaderboard :: "ScoreEntry list \<Rightarrow> string" where
  "write_leaderboard es = concat (map (\<lambda>entry. score_line (entry_name entry) (entry_score entry)) es)"

definition write_userScores :: "(string \<times> int) list \<Rightarrow> string" where
  "write_userScores m = concat (map (\<lambda>pair. score_line (fst pair) (snd pair)) m)"

text \<open>
  An \<^verbatim>\<open>std::ofstream\<close> on \<open>fname\<close>: when it opens, the file is truncated and holds what
  is written; when it does not, nothing changes.
\<close>

definition write_file :: "string \<Rightarrow> string \<Rightarrow> Game \<Rightarrow> Game" where
  "write_file fname content g =
     (if writable g fname then g\<lparr>files := (files g)(fname \<mapsto> content)\<rparr> else g)"

section \<open>Leaderboard and score manager\<close>

text \<open>
  \<^verbatim>\<open>std::map<std::string, int>\<close>: an association list kept in ascending key order (the
  order in which the map is iterated), one pair per key.
\<close>

fun map_put :: "string \<Rightarrow> int \<Rightarrow> (string \<times> int) list \<Rightarrow> (string \<times> int) list" where
  "map_put k v [] = [(k, v)]"
| "map_put k v ((k', v') # m) =
     (if k < k' then (k, v) # (k', v') # m
      else if k = k' then (k, v) # m
      else (k', v') # map_put k v m)"

text \<open>
  \<^verbatim>\<open>std::sort(leaderboard.begin(), leaderboard.end())\<close> orders by \<^verbatim>\<open>ScoreEntry::operator<\<close>.
  The library routine is a parameter \<open>srt\<close> of the model; what the standard promises of
  it is \<open>std_sort_spec\<close>: the result is a permutation of the input in which no element
  is less than an earlier one. The order of equal scores is left open, as it is in C++.
\<close>

type_synonym sorter = "ScoreEntry list \<Rightarrow> ScoreEntry list"

definition std_sort_spec :: "sorter \<Rightarrow> bool" where
  "std_sort_spec srt =
     (\<forall>xs. mset (srt xs) = mset xs \<and> sorted_wrt (\<lambda>a b. \<not> entry_less b a) (srt xs))"

text \<open>One conforming sort, for the examples: insertion sort.\<close>

fun insert_entry :: "ScoreEntry \<Rightarrow> ScoreEntry list \<Rightarrow> ScoreEntry list" where
  "insert_entry e [] = [e]"
| "insert_entry e (a # rest) =
     (if entry_less e a then e # a # rest else a # insert_entry e rest)"

definition insertion_sort :: sorter where
  "insertion_sort xs = foldr insert_entry xs []"

subsection \<open>Game::loadLeaderboard\<close>

fun bestScores_loop :: "(string \<times> int) list \<Rightarrow> (string \<times> int) list \<Rightarrow> (string \<times> int) list" where
  "bestScores_loop [] bestScores = bestScores"
| "bestScores_loop ((name, scoreVal) # rest) bestScores =
     bestScores_loop rest
       (case map_of bestScores name of
          None \<Rightarrow> map_put name scoreVal bestScores
        | Some old \<Rightarrow> if scoreVal > old then map_put name scoreVal bestScores else bestScores)"

definition loadLeaderboard :: "sorter \<Rightarrow> Game \<Rightarrow> Game" where
  "loadLeaderboard srt g =
     (case files g ''scores.txt'' of
        None \<Rightarrow> g\<lparr>leaderboard := []\<rparr>
      | Some content \<Rightarrow>
          g\<lparr>leaderboard :=
              srt (map (\<lambda>pair. \<lparr>entry_name = fst pair, entry_score = snd pair\<rparr>)
                       (bestScores_loop (name_score_records content) []))\<rparr>)"

subsection \<open>Game::saveToLeaderboard\<close>

text \<open>
  The search loop with its \<^verbatim>\<open>break\<close>: only the first entry of the player is looked at.
  The result is \<^verbatim>\<open>playerExists\<close> and the updated entries.
\<close>

fun upsert_loop :: "string \<Rightarrow> int \<Rightarrow> ScoreEntry list \<Rightarrow> bool \<times> ScoreEntry list" where
  "upsert_loop player sc [] = (False, [])"
| "upsert_loop player sc (entry # rest) =
     (if entry_name entry = player
      then (True, (if sc > entry_score entry then entry\<lparr>entry_score := sc\<rparr> else entry) # rest)
      else (case upsert_loop player sc rest of (found, rest') \<Rightarrow> (found, entry # rest')))"

definition saveToLeaderboard :: "sorter \<Rightarrow> Game \<Rightarrow> Game" where
  "saveToLeaderboard srt g =
     (if score g > 0 then
        (case upsert_loop (playerName g) (score g) (leaderboard g) of
           (playerExists, lb1) \<Rightarrow>
             (let lb2 = (if \<not> playerExists
                         then lb1 @ [\<lparr>entry_name = playerName g, entry_score = score g\<rparr>] else lb1);
                  lb3 = srt lb2;
                  lb4 = (if length lb3 > MAX_LEADERBOARD_ENTRIES
                         then take MAX_LEADERBOARD_ENTRIES lb3 else lb3)
              in write_file ''scores.txt'' (write_leaderboard lb4) (g\<lparr>leaderboard := lb4\<rparr>)))
      else g)"

subsection \<open>Game::savePersonalBest\<close>

fun userScores_loop :: "(string \<times> int) list \<Rightarrow> (string \<times> int) list \<Rightarrow> (string \<times> int) list" where
  "userScores_loop [] userScores = userScores"
| "userScores_loop ((name, existingScore) # rest) userScores =
     userScores_loop rest (map_put name existingScore userScores)"

definition savePersonalBest :: "Game \<Rightarrow> Game" where
  "savePersonalBest g =
     (if score g \<le> personalBestScore g then g
      else
        (let userScores = (case files g ''user_scores.txt'' of
                             None \<Rightarrow> []
                           | Some content \<Rightarrow> userScores_loop (name_score_records content) []);
             userScores' = map_put (playerName g) (score g) userScores;
             g1 = write_file ''user_scores.txt'' (write_userScores userScores') g;
             g2 = g1\<lparr>personalBestScore := score g\<rparr>
         in if score g > overallHighestScore g2 then g2\<lparr>overallHighestScore := score g\<rparr> else g2))"

section \<open>Game state machine\<close>

definition changeState :: "sorter \<Rightarrow> GameState \<Rightarrow> Game \<Rightarrow> Game" where
  "changeState srt newState g =
     (let g1 = g\<lparr>currentState := newState, selectedMenuItem := 0\<rparr>
      in if newState = LEADERBOARD then loadLeaderboard srt g1 else g1)"

text \<open>The keys that \<^verbatim>\<open>IsKeyPressed\<close> is asked about during play; an input is the set of keys
  pressed in the frame.\<close>

datatype Key =
  KEY_P | KEY_SPACE | KEY_Q | KEY_ESCAPE
| KEY_W | KEY_UP | KEY_S | KEY_DOWN | KEY_A | KEY_LEFT | KEY_D | KEY_RIGHT

definition handleGameInput :: "sorter \<Rightarrow> (Key \<Rightarrow> bool) \<Rightarrow> Game \<Rightarrow> Game" where
  "handleGameInput srt IsKeyPressed g =
     (if IsKeyPressed KEY_P \<or> IsKeyPressed KEY_SPACE then changeState srt PAUSED g
      else if IsKeyPressed KEY_Q \<or> IsKeyPressed KEY_ESCAPE then changeState srt MENU g
      else
        (let g1 = (if (IsKeyPressed KEY_W \<or> IsKeyPressed KEY_UP) \<and> currentDirection g \<noteq> DOWN
                   then g\<lparr>nextDirection := UP\<rparr> else g);
             g2 = (if (IsKeyPressed KEY_S \<or> IsKeyPressed KEY_DOWN) \<and> currentDirection g1 \<noteq> UP
                   then g1\<lparr>nextDirection := DOWN\<rparr> else g1);
             g3 = (if (IsKeyPressed KEY_A \<or> IsKeyPressed KEY_LEFT) \<and> currentDirection g2 \<noteq> RIGHT
                   then g2\<lparr>nextDirection := LEFT\<rparr> else g2);
             g4 = (if (IsKeyPressed KEY_D \<or> IsKeyPressed KEY_RIGHT) \<and> currentDirection g3 \<noteq> LEFT
                   then g3\<lparr>nextDirection := RIGHT\<rparr> else g3)
         in g4))"

section \<open>Snake simulation: movement and food\<close>

definition initializeSnake :: "Game \<Rightarrow> Game" where
  "initializeSnake g =
     g\<lparr>snake := [\<lparr>pos_x = GRID_WIDTH div 2, pos_y = GRID_HEIGHT div 2\<rparr>,
                 \<lparr>pos_x = GRID_WIDTH div 2, pos_y = GRID_HEIGHT div 2 + 1\<rparr>,
                 \<lparr>pos_x = GRID_WIDTH div 2, pos_y = GRID_HEIGHT div 2 + 2\<rparr>],
       currentDirection := UP, nextDirection := UP\<rparr>"

text \<open>
  The cells of the grid that hold neither a snake segment nor an obstacle, in the order
  of the two nested loops (\<open>x\<close> outside, \<open>y\<close> inside).
\<close>

definition emptyPositions :: "Game \<Rightarrow> Position list" where
  "emptyPositions g =
     concat (map (\<lambda>x. concat (map (\<lambda>y.
         (let pos = \<lparr>pos_x = x, pos_y = y\<rparr>;
              isEmpty = (if hits_any (snake g) pos then False
                         else if hits_any (obstacles g) pos then False else True)
          in if isEmpty then [pos] else []))
       [0..GRID_HEIGHT - 1])) [0..GRID_WIDTH - 1])"

text \<open>\<open>r\<close> is the value that \<^verbatim>\<open>rand()\<close> returns.\<close>

definition generateFood :: "nat \<Rightarrow> Game \<Rightarrow> Game" where
  "generateFood r g =
     (let empties = emptyPositions g
      in if empties \<noteq> [] then g\<lparr>food := empties ! (r mod length empties)\<rparr> else g)"

text \<open>The \<^verbatim>\<open>switch (currentDirection)\<close> of Game::moveSnake, applied to a copy of the head.\<close>

definition newHead :: "Direction \<Rightarrow> Position \<Rightarrow> Position" where
  "newHead d head =
     (case d of
        UP \<Rightarrow> head\<lparr>pos_y := pos_y head - 1\<rparr>
      | DOWN \<Rightarrow> head\<lparr>pos_y := pos_y head + 1\<rparr>
      | LEFT \<Rightarrow> head\<lparr>pos_x := pos_x head - 1\<rparr>
      | RIGHT \<Rightarrow> head\<lparr>pos_x := pos_x head + 1\<rparr>)"

definition moveSnake :: "Game \<Rightarrow> Game option" where
  "moveSnake g =
     (case front (snake g) of
        None \<Rightarrow> None
      | Some head \<Rightarrow> Some (g\<lparr>snake := newHead (currentDirection g) head # snake g\<rparr>))"

text \<open>
  Game::update. The timers are floats of the presentation loop; \<open>due\<close> is the outcome of
  \<^verbatim>\<open>moveTimer >= currentSpeed\<close> after \<^verbatim>\<open>moveTimer += deltaTime\<close>, so \<open>update srt r True\<close>
  is one logical tick. \<open>None\<close>: the snake was empty (\<^verbatim>\<open>front()\<close> of an empty deque).
\<close>

definition update :: "sorter \<Rightarrow> nat \<Rightarrow> bool \<Rightarrow> Game \<Rightarrow> Game option" where
  "update srt r due g =
     (if due then
        (case moveSnake (g\<lparr>currentDirection := nextDirection g\<rparr>) of
           None \<Rightarrow> None
         | Some g2 \<Rightarrow>
             (case checkCollision g2 of
                None \<Rightarrow> None
              | Some collided \<Rightarrow>
                  if collided
                  then Some (changeState srt GAME_OVER (savePersonalBest (saveToLeaderboard srt g2)))
                  else (case front (snake g2) of
                          None \<Rightarrow> None
                        | Some head \<Rightarrow>
                            if pos_eq head (food g2)
                            then Some (generateFood r (g2\<lparr>score := score g2 + 10\<rparr>))
                            else Some (g2\<lparr>snake := butlast (snake g2)\<rparr>))))
      else Some g)"

text \<open>The state after the first two statements of a tick: the buffered direction is
  committed and the new head is prepended (\<open>moveSnake_moved\<close> below).\<close>

definition moved :: "Game \<Rightarrow> Position \<Rightarrow> Game" where
  "moved g head = g\<lparr>currentDirection := nextDirection g,
                     snake := newHead (nextDirection g) head # snake g\<rparr>"

definition reset :: "nat \<Rightarrow> Game \<Rightarrow> Game" where
  "reset r g = (generateFood r (initializeSnake g))\<lparr>score := 0\<rparr>"

section \<open>Difficulty model\<close>

text \<open>
  Game::getDifficultyLevel is \<^verbatim>\<open>(score / 50) + 1\<close> on \<^verbatim>\<open>int\<close>; the C++ division truncates
  towards zero.
\<close>

definition cpp_div :: "int \<Rightarrow> int \<Rightarrow> int" where
  "cpp_div a b = sgn a * sgn b * (\<bar>a\<bar> div \<bar>b\<bar>)"

definition getDifficultyLevel :: "Game \<Rightarrow> int" where
  "getDifficultyLevel g = cpp_div (score g) 50 + 1"

subsection \<open>Single-precision arithmetic\<close>

text \<open>
  Game::calculateSpeed computes with \<^verbatim>\<open>float\<close>, which is IEEE-754 binary32: 24 significant
  bits, normal exponents from -126 to 127, results rounded to the nearest representable
  value, ties to the even significand. A float is modelled by the rational number it
  denotes, and \<open>float_round\<close> is the rounding that every literal, conversion and operation
  applies to its exact result: with \<open>e\<close> the binary exponent of \<open>x\<close> (not below -126, where
  the subnormal numbers keep the spacing of the smallest normal ones), the representable
  values around \<open>x\<close> are the multiples of \<open>2 powi (e - 23)\<close>. Overflow is not modelled: the
  values of calculateSpeed are far below the largest float (the quotient of a 32-bit
  \<^verbatim>\<open>int\<close> by 30 is below \<open>2 ^ 27\<close>).

  \<open>bitlen n\<close> is the number of binary digits of \<open>n\<close>, and \<open>ilog2 x\<close> the binary exponent of a
  positive \<open>x\<close>: the \<open>e\<close> with \<open>2 powi e \<le> x < 2 powi (e + 1)\<close>.
\<close>

fun bitlen :: "nat \<Rightarrow> nat" where
  "bitlen n = (if n = 0 then 0 else Suc (bitlen (n div 2)))"

declare bitlen.simps [simp del]

definition ilog2 :: "rat \<Rightarrow> int" where
  "ilog2 x = (if 1 \<le> x then int (bitlen (nat \<lfloor>x\<rfloor>)) - 1
              else - int (bitlen (nat (\<lceil>1 / x\<rceil> - 1))))"

definition round_even :: "rat \<Rightarrow> int" where
  "round_even m = (let f = \<lfloor>m\<rfloor>; d = m - of_int f in
     if d < 1 / 2 then f else if 1 / 2 < d then f + 1 else if even f then f else f + 1)"

definition float_round :: "rat \<Rightarrow> rat" where
  "float_round x = (if x = 0 then 0 else
     let e = max (ilog2 \<bar>x\<bar>) (- 126); q = 2 powi (e - 23)
     in of_int (round_even (x / q)) * q)"

subsection \<open>Game::calculateSpeed\<close>

text \<open>
  The three locals are the floats of the literals \<^verbatim>\<open>0.15f\<close>, \<^verbatim>\<open>0.02f\<close> and \<^verbatim>\<open>0.05f\<close>;
  \<^verbatim>\<open>(score / 30) * 0.02f\<close> divides in \<^verbatim>\<open>int\<close>, converts the quotient to \<^verbatim>\<open>float\<close> and
  multiplies in \<^verbatim>\<open>float\<close>; the difference is a \<^verbatim>\<open>float\<close> operation as well. (The tick of
  \<open>update\<close> compares its timer with this value; the outcome of the comparison is the
  parameter \<open>due\<close> there.)
\<close>

definition calculateSpeed :: "Game \<Rightarrow> rat" where
  "calculateSpeed g =
     (let baseSpeed = float_round (15 / 100);
          speedIncrease = float_round (float_round (of_int (cpp_div (score g) 30)) * float_round (2 / 100));
          minSpeed = float_round (5 / 100)
      in max minSpeed (float_round (baseSpeed - speedIncrease)))"

section \<open>Notions used to state the properties\<close>

text \<open>
  Runs of the frame loop that stay in the PLAYING state: \<open>plain_ticks srt n g g'\<close> holds
  when \<open>g'\<close> is reached from \<open>g\<close> by frames (input handling, then update) of which
  exactly \<open>n\<close> were ticks, none of them colliding and none of them landing on the food.
\<close>

inductive plain_ticks :: "sorter \<Rightarrow> nat \<Rightarrow> Game \<Rightarrow> Game \<Rightarrow> bool" for srt where
  no_frame: "plain_ticks srt 0 g g"
| idle_frame:
    "plain_ticks srt n g g1 \<Longrightarrow> currentState g1 = PLAYING \<Longrightarrow>
     g2 = handleGameInput srt IsKeyPressed g1 \<Longrightarrow> currentState g2 = PLAYING \<Longrightarrow>
     update srt r False g2 = Some g3 \<Longrightarrow>
     plain_ticks srt n g g3"
| tick_frame:
    "plain_ticks srt n g g1 \<Longrightarrow> currentState g1 = PLAYING \<Longrightarrow>
     g2 = handleGameInput srt IsKeyPressed g1 \<Longrightarrow> currentState g2 = PLAYING \<Longrightarrow>
     moveSnake (g2\<lparr>currentDirection := nextDirection g2\<rparr>) = Some m \<Longrightarrow>
     checkCollision m = Some False \<Longrightarrow>
     front (snake m) = Some h \<Longrightarrow> h \<noteq> food m \<Longrightarrow>
     update srt r True g2 = Some g3 \<Longrightarrow>
     plain_ticks srt (Suc n) g g3"

text \<open>
  The notions of the direction-buffering claim: the direction opposite to \<open>d\<close> (the one
  the guard of \<open>d\<close>'s key in handleGameInput compares with), the two keys of a
  direction, and an input in which the keys of \<open>d\<close>, and no other key, are pressed.
\<close>

definition opposite :: "Direction \<Rightarrow> Direction" where
  "opposite d = (case d of UP \<Rightarrow> DOWN | DOWN \<Rightarrow> UP | LEFT \<Rightarrow> RIGHT | RIGHT \<Rightarrow> LEFT)"

definition keys_of :: "Direction \<Rightarrow> Key set" where
  "keys_of d = (case d of UP \<Rightarrow> {KEY_W, KEY_UP} | DOWN \<Rightarrow> {KEY_S, KEY_DOWN}
                | LEFT \<Rightarrow> {KEY_A, KEY_LEFT} | RIGHT \<Rightarrow> {KEY_D, KEY_RIGHT})"

definition presses :: "(Key \<Rightarrow> bool) \<Rightarrow> Direction \<Rightarrow> bool" where
  "presses IsKeyPressed d =
     ((\<exists>k \<in> keys_of d. IsKeyPressed k) \<and> (\<forall>k. IsKeyPressed k \<longrightarrow> k \<in> keys_of d))"

text \<open>
  The speed interval as a function of the number \<open>n\<close> of completed 30-point steps, and
  the seven values it takes for \<open>n \<ge> 0\<close>, each a single-precision number written as a
  fraction with a power of two below.
\<close>

definition speed_at :: "int \<Rightarrow> rat" where
  "speed_at n = max (float_round (5 / 100))
     (float_round (float_round (15 / 100) - float_round (float_round (of_int n) * float_round (2 / 100))))"

definition speed_table :: "int \<Rightarrow> rat" where
  "speed_table n =
     (if n = 0 then 5033165 / 33554432 else if n = 1 then 8724153 / 67108864
      else if n = 2 then 14763951 / 134217728 else if n = 3 then 3019899 / 33554432
      else if n = 4 then 4697621 / 67108864 else if n = 5 then 838861 / 16777216
      else 13421773 / 268435456)"

text \<open>The position made from a pair read from the file, and the bounds test of the loop.\<close>

definition to_pos :: "int \<times> int \<Rightarrow> Position" where
  "to_pos p = \<lparr>pos_x = fst p, pos_y = snd p\<rparr>"

definition in_grid :: "Position \<Rightarrow> bool" where
  "in_grid p = (0 \<le> pos_x p \<and> pos_x p < 30 \<and> 0 \<le> pos_y p \<and> pos_y p < 20)"

text \<open>The pairs that Game::loadHighestScores reads from the best-score store.\<close>

definition stored_scores :: "Game \<Rightarrow> (string \<times> int) list" where
  "stored_scores g =
     (case files g ''user_scores.txt'' of None \<Rightarrow> [] | Some content \<Rightarrow> name_score_records content)"

text \<open>The pairs that Game::loadLeaderboard reads from the leaderboard file.\<close>

definition stored_leaderboard :: "Game \<Rightarrow> (string \<times> int) list" where
  "stored_leaderboard g =
     (case files g ''scores.txt'' of None \<Rightarrow> [] | Some content \<Rightarrow> name_score_records content)"

definition to_entry :: "string \<times> int \<Rightarrow> ScoreEntry" where
  "to_entry pair = \<lparr>entry_name = fst pair, entry_score = snd pair\<rparr>"

text \<open>
  The invariant of the merge loop of loadLeaderboard, for the map \<open>m\<close> built from the pairs
  \<open>seen\<close> so far: the keys ascend strictly, every key holds the highest score seen for it,
  and every name seen is a key.
\<close>

definition best_inv :: "(string \<times> int) list \<Rightarrow> (string \<times> int) list \<Rightarrow> bool" where
  "best_inv m seen =
     (sorted_wrt (<) (map fst m)
      \<and> (\<forall>n v. map_of m n = Some v \<longrightarrow> (n, v) \<in> set seen \<and> (\<forall>s. (n, s) \<in> set seen \<longrightarrow> s \<le> v))
      \<and> (\<forall>n s. (n, s) \<in> set seen \<longrightarrow> map_of m n \<noteq> None))"

text \<open>
  The upsert of the leaderboard claim, in the claim's words: the entry of the player keeps
  the higher of its score and the new one; a player without an entry is appended.
\<close>

definition raise_to :: "string \<Rightarrow> int \<Rightarrow> ScoreEntry \<Rightarrow> ScoreEntry" where
  "raise_to player sc e =
     (if entry_name e = player then e\<lparr>entry_score := max (entry_score e) sc\<rparr> else e)"

definition upsert :: "string \<Rightarrow> int \<Rightarrow> ScoreEntry list \<Rightarrow> ScoreEntry list" where
  "upsert player sc lb =
     (if player \<in> entry_name ` set lb then map (raise_to player sc) lb
      else lb @ [\<lparr>entry_name = player, entry_score = sc\<rparr>])"

section \<open>Example states and files\<close>

definition no_files :: "string \<Rightarrow> string option" where
  "no_files fname = None"

definition game0 :: Game where
  "game0 = \<lparr> currentState = PLAYING,
             snake = [\<lparr>pos_x = 15, pos_y = 10\<rparr>, \<lparr>pos_x = 15, pos_y = 11\<rparr>, \<lparr>pos_x = 15, pos_y = 12\<rparr>],
             food = \<lparr>pos_x = 15, pos_y = 8\<rparr>,
             obstacles = [\<lparr>pos_x = 3, pos_y = 4\<rparr>],
             currentDirection = UP, nextDirection = UP,
             score = 0, overallHighestScore = 0, personalBestScore = 0,
             playerName = ''Player'', leaderboard = [],
             selectedMenuItem = 0, gameRunning = True, showGrid = True,
             files = no_files, writable = (\<lambda>fname. True) \<rparr>"

definition game_blocked :: Game where
  "game_blocked = game0\<lparr>food := \<lparr>pos_x = 15, pos_y = 9\<rparr>, obstacles := [\<lparr>pos_x = 15, pos_y = 9\<rparr>]\<rparr>"

definition game_at_wall :: Game where
  "game_at_wall = game0\<lparr>snake := [\<lparr>pos_x = 15, pos_y = 0\<rparr>, \<lparr>pos_x = 15, pos_y = 1\<rparr>, \<lparr>pos_x = 15, pos_y = 2\<rparr>]\<rparr>"

definition all_cells :: "Position list" where
  "all_cells = concat (map (\<lambda>x. map (\<lambda>y. \<lparr>pos_x = x, pos_y = y\<rparr>) [0..19]) [0..29])"

definition game_full :: Game where
  "game_full = game0\<lparr>snake := all_cells\<rparr>"

definition game_fed :: Game where
  "game_fed = game0\<lparr>food := \<lparr>pos_x = 15, pos_y = 9\<rparr>\<rparr>"

text \<open>
  A path through all 600 cells, down the even columns and up the odd ones, starting at
  (0, 0); and the game without obstacles whose snake lies on the path from (0, 1) on
  (head first), heading UP, with the food on the only free cell (0, 0).
\<close>

definition snake_path :: "Position list" where
  "snake_path =
     concat (map (\<lambda>x. map (\<lambda>y. \<lparr>pos_x = x, pos_y = (if even x then y else 19 - y)\<rparr>) [0..19]) [0..29])"

definition game_last :: Game where
  "game_last = game0\<lparr>snake := tl snake_path, food := \<lparr>pos_x = 0, pos_y = 0\<rparr>, obstacles := []\<rparr>"

definition press_A :: "Key \<Rightarrow> bool" where "press_A k = (k = KEY_A)"

definition press_S :: "Key \<Rightarrow> bool" where "press_S k = (k = KEY_S)"

definition press_S_A :: "Key \<Rightarrow> bool" where "press_S_A k = (k = KEY_S \<or> k = KEY_A)"

definition game_turning :: Game where
  "game_turning = handleGameInput insertion_sort press_A game0"

text \<open>Two obstacle files: a well-formed one with an entry outside the grid, and one whose
  second line cannot be parsed.\<close>

definition obstacles_txt_ok :: string where
  "obstacles_txt_ok = ''3 4'' @ [CHR 0x0A] @ ''50 2'' @ [CHR 0x0A] @ ''7 8'' @ [CHR 0x0A]"

definition obstacles_txt_bad :: string where
  "obstacles_txt_bad = ''1 1'' @ [CHR 0x0A] @ ''x 5'' @ [CHR 0x0A] @ ''2 2'' @ [CHR 0x0A]"

definition with_file :: "string \<Rightarrow> string \<Rightarrow> Game \<Rightarrow> Game" where
  "with_file fname content g = g\<lparr>files := (files g)(fname \<mapsto> content)\<rparr>"

definition user_scores_txt :: string where
  "user_scores_txt = ''x 10'' @ [CHR 0x0A] @ ''y 30'' @ [CHR 0x0A] @ ''x 20'' @ [CHR 0x0A]"

definition game_x :: Game where
  "game_x = with_file ''user_scores.txt'' user_scores_txt (game0\<lparr>playerName := ''x''\<rparr>)"

definition user_scores_txt_neg :: string where
  "user_scores_txt_neg = ''x -5'' @ [CHR 0x0A]"

definition game_neg :: Game where
  "game_neg = with_file ''user_scores.txt'' user_scores_txt_neg (game0\<lparr>playerName := ''x''\<rparr>)"

definition scores_txt_eleven :: string where
  "scores_txt_eleven =
     ''a 1'' @ [CHR 0x0A] @ ''b 2'' @ [CHR 0x0A] @ ''c 3'' @ [CHR 0x0A] @ ''d 4'' @ [CHR 0x0A]
     @ ''e 5'' @ [CHR 0x0A] @ ''f 6'' @ [CHR 0x0A] @ ''g 7'' @ [CHR 0x0A] @ ''h 8'' @ [CHR 0x0A]
     @ ''i 9'' @ [CHR 0x0A] @ ''j 10'' @ [CHR 0x0A] @ ''k 11'' @ [CHR 0x0A]"

definition scores_txt_dup :: string where
  "scores_txt_dup = ''a 50'' @ [CHR 0x0A] @ ''b 30'' @ [CHR 0x0A] @ ''a 70'' @ [CHR 0x0A] @ ''b 20'' @ [CHR 0x0A]"

definition game_eleven :: Game where
  "game_eleven = with_file ''scores.txt'' scores_txt_eleven game0"

definition game_dup :: Game where
  "game_dup = with_file ''scores.txt'' scores_txt_dup game0"

definition game_scored :: Game where
  "game_scored = game0\<lparr>playerName := ''a'', score := 40,
     leaderboard := [\<lparr>entry_name = ''a'', entry_score = 50\<rparr>, \<lparr>entry_name = ''b'', entry_score = 30\<rparr>]\<rparr>"

text \<open>A leaderboard file with eleven names, the player \<open>a\<close> last, and the state of player
  \<open>a\<close> after the leaderboard screen has loaded it.\<close>

definition scores_txt_long :: string where
  "scores_txt_long =
     ''a 10'' @ [CHR 0x0A] @ ''b 20'' @ [CHR 0x0A] @ ''c 30'' @ [CHR 0x0A] @ ''d 40'' @ [CHR 0x0A]
     @ ''e 50'' @ [CHR 0x0A] @ ''f 60'' @ [CHR 0x0A] @ ''g 70'' @ [CHR 0x0A] @ ''h 80'' @ [CHR 0x0A]
     @ ''i 90'' @ [CHR 0x0A] @ ''j 100'' @ [CHR 0x0A] @ ''k 110'' @ [CHR 0x0A]"

definition game_long :: Game where
  "game_long = changeState insertion_sort LEADERBOARD
     (with_file ''scores.txt'' scores_txt_long (game0\<lparr>playerName := ''a''\<rparr>))"

section \<open>Collision: proofs\<close>

lemma pos_eq_iff: "pos_eq a b \<longleftrightarrow> a = b"
  by (auto simp: pos_eq_def)

lemma hits_body_iff: "hits_body sn i head \<longleftrightarrow> head \<in> set (drop i sn)"
proof (induction sn i head rule: hits_body.induct)
  case (1 sn i head)
  show ?case
  proof (cases "i < length sn")
    case True
    then have d: "drop i sn = sn ! i # drop (Suc i) sn"
      by (simp add: Cons_nth_drop_Suc)
    show ?thesis
      using True "1.IH" by (subst hits_body.simps) (auto simp: d pos_eq_iff)
  next
    case False
    then show ?thesis by (subst hits_body.simps) simp
  qed
qed

lemma hits_any_iff: "hits_any obs head \<longleftrightarrow> head \<in> set obs"
  by (induction obs) (auto simp: pos_eq_iff)

text \<open>
  C1. checkCollision returns true if and only if the head (the front segment) has
  x < 0 or x >= 30 or y < 0 or y >= 20, or equals a body segment other than the head
  itself, or equals an obstacle; otherwise it returns false. (The head exists: the snake
  is \<open>head # body\<close>.)
\<close>

theorem checkCollision_iff:
  "snake g = head # body \<Longrightarrow>
   checkCollision g =
     Some (pos_x head < 0 \<or> pos_x head \<ge> 30 \<or> pos_y head < 0 \<or> pos_y head \<ge> 20
           \<or> (\<exists>i. 0 < i \<and> i < length (snake g) \<and> snake g ! i = head)
           \<or> head \<in> set (obstacles g))"
proof -
  assume sn: "snake g = head # body"
  have "(\<exists>i. 0 < i \<and> i < length (snake g) \<and> snake g ! i = head) \<longleftrightarrow> head \<in> set body"
  proof
    assume "\<exists>i. 0 < i \<and> i < length (snake g) \<and> snake g ! i = head"
    then obtain i where i: "0 < i" "i < length (snake g)" "snake g ! i = head" by blast
    then obtain j where j: "i = Suc j" by (cases i) auto
    with i sn show "head \<in> set body" by (auto simp: set_conv_nth)
  next
    assume "head \<in> set body"
    then obtain j where "j < length body" "body ! j = head" by (auto simp: in_set_conv_nth)
    with sn have "0 < Suc j \<and> Suc j < length (snake g) \<and> snake g ! Suc j = head" by simp
    then show "\<exists>i. 0 < i \<and> i < length (snake g) \<and> snake g ! i = head" by blast
  qed
  then show ?thesis
    using sn
    by (simp add: checkCollision_def front_def hits_body_iff hits_any_iff
        GRID_WIDTH_def GRID_HEIGHT_def)
qed

theorem checkCollision_iff_witness:
  "snake game0 = \<lparr>pos_x = 15, pos_y = 10\<rparr> # [\<lparr>pos_x = 15, pos_y = 11\<rparr>, \<lparr>pos_x = 15, pos_y = 12\<rparr>]
   \<and> checkCollision game0 = Some False
   \<and> checkCollision (game0\<lparr>snake := \<lparr>pos_x = -1, pos_y = 10\<rparr> # snake game0\<rparr>) = Some True
   \<and> checkCollision (game0\<lparr>snake := \<lparr>pos_x = 3, pos_y = 4\<rparr> # snake game0\<rparr>) = Some True
   \<and> checkCollision (game0\<lparr>snake := \<lparr>pos_x = 15, pos_y = 11\<rparr> # snake game0\<rparr>) = Some True"
proof -
  have s: "snake game0 = \<lparr>pos_x = 15, pos_y = 10\<rparr> # [\<lparr>pos_x = 15, pos_y = 11\<rparr>, \<lparr>pos_x = 15, pos_y = 12\<rparr>]"
    by (simp add: game0_def)
  have "checkCollision game0 = Some False"
    using checkCollision_iff [OF s] by (simp add: game0_def nth_Cons')
  moreover have "checkCollision (game0\<lparr>snake := \<lparr>pos_x = -1, pos_y = 10\<rparr> # snake game0\<rparr>) = Some True"
    by (simp add: checkCollision_def front_def)
  moreover have "checkCollision (game0\<lparr>snake := \<lparr>pos_x = 3, pos_y = 4\<rparr> # snake game0\<rparr>) = Some True"
    by (simp add: checkCollision_def front_def hits_body_iff hits_any_iff game0_def
        GRID_WIDTH_def GRID_HEIGHT_def)
  moreover have "checkCollision (game0\<lparr>snake := \<lparr>pos_x = 15, pos_y = 11\<rparr> # snake game0\<rparr>) = Some True"
    by (simp add: checkCollision_def front_def hits_body_iff hits_any_iff game0_def
        GRID_WIDTH_def GRID_HEIGHT_def)
  ultimately show ?thesis using s by simp
qed

section \<open>Frame properties: what each operation leaves alone\<close>

lemma write_file_frame [simp]:
  "snake (write_file f c g) = snake g" "score (write_file f c g) = score g"
  "currentState (write_file f c g) = currentState g"
  "currentDirection (write_file f c g) = currentDirection g"
  "nextDirection (write_file f c g) = nextDirection g"
  "food (write_file f c g) = food g" "obstacles (write_file f c g) = obstacles g"
  "leaderboard (write_file f c g) = leaderboard g" "playerName (write_file f c g) = playerName g"
  by (simp_all add: write_file_def)

lemma loadLeaderboard_frame [simp]:
  "snake (loadLeaderboard srt g) = snake g" "score (loadLeaderboard srt g) = score g"
  "currentState (loadLeaderboard srt g) = currentState g"
  "currentDirection (loadLeaderboard srt g) = currentDirection g"
  "nextDirection (loadLeaderboard srt g) = nextDirection g"
  "food (loadLeaderboard srt g) = food g" "obstacles (loadLeaderboard srt g) = obstacles g"
  by (simp_all add: loadLeaderboard_def split: option.splits)

lemma changeState_frame [simp]:
  "snake (changeState srt st g) = snake g" "score (changeState srt st g) = score g"
  "currentState (changeState srt st g) = st"
  "currentDirection (changeState srt st g) = currentDirection g"
  "nextDirection (changeState srt st g) = nextDirection g"
  "food (changeState srt st g) = food g" "obstacles (changeState srt st g) = obstacles g"
  by (simp_all add: changeState_def Let_def)

lemma saveToLeaderboard_frame [simp]:
  "snake (saveToLeaderboard srt g) = snake g" "score (saveToLeaderboard srt g) = score g"
  "currentState (saveToLeaderboard srt g) = currentState g"
  "currentDirection (saveToLeaderboard srt g) = currentDirection g"
  "nextDirection (saveToLeaderboard srt g) = nextDirection g"
  "food (saveToLeaderboard srt g) = food g" "obstacles (saveToLeaderboard srt g) = obstacles g"
  by (simp_all add: saveToLeaderboard_def Let_def split: prod.splits)

lemma savePersonalBest_frame [simp]:
  "snake (savePersonalBest g) = snake g" "score (savePersonalBest g) = score g"
  "currentState (savePersonalBest g) = currentState g"
  "currentDirection (savePersonalBest g) = currentDirection g"
  "nextDirection (savePersonalBest g) = nextDirection g"
  "food (savePersonalBest g) = food g" "obstacles (savePersonalBest g) = obstacles g"
  by (simp_all add: savePersonalBest_def Let_def)

lemma generateFood_frame [simp]:
  "snake (generateFood r g) = snake g" "score (generateFood r g) = score g"
  "currentState (generateFood r g) = currentState g"
  "currentDirection (generateFood r g) = currentDirection g"
  "nextDirection (generateFood r g) = nextDirection g"
  "obstacles (generateFood r g) = obstacles g"
  by (simp_all add: generateFood_def Let_def)

lemma handleGameInput_frame [simp]:
  "snake (handleGameInput srt keys g) = snake g" "score (handleGameInput srt keys g) = score g"
  "currentDirection (handleGameInput srt keys g) = currentDirection g"
  "food (handleGameInput srt keys g) = food g" "obstacles (handleGameInput srt keys g) = obstacles g"
  by (simp_all add: handleGameInput_def Let_def)

lemma moveSnake_moved:
  "snake g = head # body \<Longrightarrow> moveSnake (g\<lparr>currentDirection := nextDirection g\<rparr>) = Some (moved g head)"
  by (simp add: moveSnake_def front_def moved_def)

lemma checkCollision_moved_Some:
  "checkCollision (moved g head) \<noteq> None"
  by (simp add: checkCollision_def front_def moved_def)

lemma update_tick:
  "snake g = head # body \<Longrightarrow>
   update srt r True g =
     (if checkCollision (moved g head) = Some True
      then Some (changeState srt GAME_OVER (savePersonalBest (saveToLeaderboard srt (moved g head))))
      else if newHead (nextDirection g) head = food g
      then Some (generateFood r ((moved g head)\<lparr>score := score g + 10\<rparr>))
      else Some ((moved g head)\<lparr>snake := butlast (newHead (nextDirection g) head # snake g)\<rparr>))"
  using checkCollision_moved_Some [of g head]
  by (cases "checkCollision (moved g head)")
     (auto simp: update_def moveSnake_moved front_def pos_eq_iff moved_def)


section \<open>The tick on a collision\<close>

text \<open>
  C10. On a tick where checkCollision returns true, update leaves the newly prepended
  colliding head in the snake (length = previous length + 1; the head may lie outside the
  grid), does not remove the tail, and leaves the score unchanged, whatever the food
  position is (the collision is tested before the food), and the state becomes GAME_OVER.
\<close>

theorem update_collision:
  assumes "moveSnake (g\<lparr>currentDirection := nextDirection g\<rparr>) = Some g2"
    and "checkCollision g2 = Some True"
  shows "\<exists>g' head. update srt r True g = Some g'
           \<and> front (snake g) = Some head
           \<and> snake g' = newHead (nextDirection g) head # snake g
           \<and> length (snake g') = length (snake g) + 1
           \<and> score g' = score g
           \<and> currentState g' = GAME_OVER"
proof -
  from assms(1) obtain head body where sn: "snake g = head # body"
    by (cases "snake g") (auto simp: moveSnake_def front_def)
  with assms(1) have g2: "g2 = moved g head"
    by (simp add: moveSnake_moved)
  have "update srt r True g =
      Some (changeState srt GAME_OVER (savePersonalBest (saveToLeaderboard srt (moved g head))))"
    using sn assms(2) by (simp add: update_tick g2)
  then show ?thesis
    using sn by (simp add: front_def) (simp add: moved_def)
qed

theorem update_collision_witness:
  "checkCollision (moved game_blocked \<lparr>pos_x = 15, pos_y = 10\<rparr>) = Some True
   \<and> food game_blocked = \<lparr>pos_x = 15, pos_y = 9\<rparr>
   \<and> (\<exists>g'. update insertion_sort 0 True game_blocked = Some g'
          \<and> snake g' = \<lparr>pos_x = 15, pos_y = 9\<rparr> # snake game_blocked
          \<and> length (snake g') = 4
          \<and> score g' = 0
          \<and> currentState g' = GAME_OVER)
   \<and> checkCollision (moved game_at_wall \<lparr>pos_x = 15, pos_y = 0\<rparr>) = Some True
   \<and> (\<exists>g'. update insertion_sort 0 True game_at_wall = Some g'
          \<and> snake g' = \<lparr>pos_x = 15, pos_y = - 1\<rparr> # snake game_at_wall
          \<and> currentState g' = GAME_OVER)"
proof -
  have m1: "moveSnake (game_blocked\<lparr>currentDirection := nextDirection game_blocked\<rparr>)
      = Some (moved game_blocked \<lparr>pos_x = 15, pos_y = 10\<rparr>)"
    by (rule moveSnake_moved) (simp add: game_blocked_def game0_def)
  have c1: "checkCollision (moved game_blocked \<lparr>pos_x = 15, pos_y = 10\<rparr>) = Some True"
    by (simp add: checkCollision_def front_def moved_def newHead_def hits_body_iff hits_any_iff
        game_blocked_def game0_def GRID_WIDTH_def GRID_HEIGHT_def)
  have m2: "moveSnake (game_at_wall\<lparr>currentDirection := nextDirection game_at_wall\<rparr>)
      = Some (moved game_at_wall \<lparr>pos_x = 15, pos_y = 0\<rparr>)"
    by (rule moveSnake_moved) (simp add: game_at_wall_def game0_def)
  have c2: "checkCollision (moved game_at_wall \<lparr>pos_x = 15, pos_y = 0\<rparr>) = Some True"
    by (simp add: checkCollision_def front_def moved_def newHead_def
        game_at_wall_def game0_def GRID_WIDTH_def GRID_HEIGHT_def)
  have f: "food game_blocked = \<lparr>pos_x = 15, pos_y = 9\<rparr>"
    by (simp add: game_blocked_def)
  have e1: "\<exists>g'. update insertion_sort 0 True game_blocked = Some g'
          \<and> snake g' = \<lparr>pos_x = 15, pos_y = 9\<rparr> # snake game_blocked
          \<and> length (snake g') = 4 \<and> score g' = 0 \<and> currentState g' = GAME_OVER"
    using update_collision [OF m1 c1, of insertion_sort 0]
    by (auto simp: front_def newHead_def game_blocked_def game0_def)
  have e2: "\<exists>g'. update insertion_sort 0 True game_at_wall = Some g'
          \<and> snake g' = \<lparr>pos_x = 15, pos_y = - 1\<rparr> # snake game_at_wall
          \<and> currentState g' = GAME_OVER"
    using update_collision [OF m2 c2, of insertion_sort 0]
    by (auto simp: front_def newHead_def game_at_wall_def game0_def)
  from c1 f e1 c2 e2 show ?thesis by blast
qed

section \<open>Difficulty level and speed\<close>

lemma cpp_div_nonneg: "0 \<le> a \<Longrightarrow> 0 < b \<Longrightarrow> cpp_div a b = a div b"
  by (simp add: cpp_div_def sgn_if)

lemma getDifficultyLevel_floor:
  "0 \<le> score g \<Longrightarrow> getDifficultyLevel g = score g div 50 + 1"
  by (simp add: getDifficultyLevel_def cpp_div_def sgn_if)

subsection \<open>The rounding: exponent and error\<close>

lemma bitlen_bounds: "0 < n \<Longrightarrow> (2::nat) ^ (bitlen n - 1) \<le> n \<and> n < (2::nat) ^ bitlen n"
proof (induction n rule: bitlen.induct)
  case (1 n)
  show ?case
  proof (cases "n div 2 = 0")
    case True
    with 1(2) have "n = 1" by presburger
    then show ?thesis by (simp add: bitlen.simps)
  next
    case False
    with 1 have ih: "(2::nat) ^ (bitlen (n div 2) - 1) \<le> n div 2" "n div 2 < (2::nat) ^ bitlen (n div 2)"
      by auto
    have pos: "0 < bitlen (n div 2)" using False by (subst bitlen.simps) simp
    have b: "bitlen n = Suc (bitlen (n div 2))" using 1(2) by (subst bitlen.simps) simp
    have e: "(2::nat) ^ bitlen (n div 2) = 2 * 2 ^ (bitlen (n div 2) - 1)"
      using pos by (cases "bitlen (n div 2)") simp_all
    have l: "(2::nat) ^ bitlen (n div 2) \<le> n" using ih(1) e by presburger
    have u: "n < 2 * (2::nat) ^ bitlen (n div 2)" using ih(2) by presburger
    show ?thesis using l u b by simp
  qed
qed

lemma ilog2_le:
  assumes "0 < x"
  shows "2 powi ilog2 x \<le> x"
proof (cases "1 \<le> x")
  case True
  then have n: "0 < nat \<lfloor>x\<rfloor>" by simp
  have "2 powi ilog2 x = (2::rat) ^ (bitlen (nat \<lfloor>x\<rfloor>) - 1)"
    using True bitlen_bounds [OF n]
    by (cases "bitlen (nat \<lfloor>x\<rfloor>)") (auto simp: ilog2_def power_int_def)
  also have "\<dots> = of_nat (2 ^ (bitlen (nat \<lfloor>x\<rfloor>) - 1))" by simp
  also have "\<dots> \<le> of_nat (nat \<lfloor>x\<rfloor>)"
    using bitlen_bounds [OF n] by (simp only: of_nat_le_iff)
  also have "\<dots> = of_int \<lfloor>x\<rfloor>" using True by simp
  also have "\<dots> \<le> x" by linarith
  finally show ?thesis .
next
  case False
  define k where "k = bitlen (nat (\<lceil>1 / x\<rceil> - 1))"
  have il: "ilog2 x = - int k" using False by (simp add: ilog2_def k_def)
  have x1: "1 < 1 / x" using assms False by simp
  then have c: "2 \<le> \<lceil>1 / x\<rceil>" by linarith
  then have n: "0 < nat (\<lceil>1 / x\<rceil> - 1)" by simp
  have "nat (\<lceil>1 / x\<rceil> - 1) < 2 ^ k" using bitlen_bounds [OF n] by (simp add: k_def)
  then have "\<lceil>1 / x\<rceil> - 1 < 2 ^ k" using c by (simp add: nat_less_iff)
  then have "\<lceil>1 / x\<rceil> \<le> 2 ^ k" by simp
  then have "1 / x \<le> of_int (2 ^ k)" by (simp only: ceiling_le_iff)
  then have "1 / x \<le> 2 ^ k" by simp
  then have "1 / 2 ^ k \<le> x" using assms by (simp add: field_simps)
  moreover have "2 powi ilog2 x = 1 / (2::rat) ^ k"
    by (simp add: il power_int_def field_simps)
  ultimately show ?thesis by simp
qed

lemma ilog2_gt:
  assumes "0 < x"
  shows "x < 2 powi (ilog2 x + 1)"
proof (cases "1 \<le> x")
  case True
  then have n: "0 < nat \<lfloor>x\<rfloor>" by simp
  define k where "k = bitlen (nat \<lfloor>x\<rfloor>)"
  have il: "ilog2 x + 1 = int k" using True by (simp add: ilog2_def k_def)
  have "nat \<lfloor>x\<rfloor> < 2 ^ k" using bitlen_bounds [OF n] by (simp add: k_def)
  then have "\<lfloor>x\<rfloor> < 2 ^ k" using True by (simp add: nat_less_iff)
  then have "\<lfloor>x\<rfloor> + 1 \<le> 2 ^ k" by simp
  then have "(of_int (\<lfloor>x\<rfloor> + 1) :: rat) \<le> of_int (2 ^ k)" by (simp only: of_int_le_iff)
  then have "of_int \<lfloor>x\<rfloor> + 1 \<le> (2::rat) ^ k" by simp
  moreover have "x < of_int \<lfloor>x\<rfloor> + 1" by linarith
  ultimately have "x < 2 ^ k" by linarith
  then show ?thesis by (simp add: il power_int_def)
next
  case False
  define m where "m = \<lceil>1 / x\<rceil>"
  define k where "k = bitlen (nat (m - 1))"
  have il: "ilog2 x = - int k" using False by (simp add: ilog2_def k_def m_def)
  have x1: "1 < 1 / x" using assms False by simp
  then have c: "2 \<le> m" unfolding m_def by linarith
  then have n: "0 < nat (m - 1)" by simp
  have k1: "0 < k" unfolding k_def using n by (subst bitlen.simps) simp
  obtain j where kj: "k = Suc j" using k1 by (cases k) auto
  have "2 ^ j \<le> nat (m - 1)" using bitlen_bounds [OF n] by (simp add: k_def [symmetric] kj)
  then have "2 ^ j \<le> m - 1" using c by (simp add: le_nat_iff)
  then have "(of_int (2 ^ j) :: rat) \<le> of_int (m - 1)" by (simp only: of_int_le_iff)
  then have "(2::rat) ^ j \<le> of_int m - 1" by simp
  moreover have "of_int m - 1 < 1 / x" unfolding m_def by linarith
  ultimately have "(2::rat) ^ j < 1 / x" by linarith
  then have lt: "x < 1 / 2 ^ j" using assms by (simp add: field_simps)
  have "ilog2 x + 1 = - int j" by (simp add: il kj)
  then have "2 powi (ilog2 x + 1) = 1 / (2::rat) ^ j"
    by (simp add: power_int_def field_simps)
  with lt show ?thesis by simp
qed

lemma round_even_err: "\<bar>of_int (round_even m) - m\<bar> \<le> 1 / 2"
proof -
  have "of_int \<lfloor>m\<rfloor> \<le> m" "m < of_int \<lfloor>m\<rfloor> + 1" by linarith+
  then show ?thesis by (auto simp: round_even_def Let_def)
qed

lemma float_round_err: "\<bar>float_round x - x\<bar> \<le> \<bar>x\<bar> / 2 ^ 24 + 1 / 2 ^ 150"
proof (cases "x = 0")
  case True
  then show ?thesis by (simp add: float_round_def)
next
  case False
  define e where "e = max (ilog2 \<bar>x\<bar>) (- 126)"
  define q :: rat where "q = 2 powi (e - 23)"
  have q0: "0 < q" by (simp add: q_def)
  have fr: "float_round x = of_int (round_even (x / q)) * q"
    using False by (simp add: float_round_def Let_def e_def q_def)
  have "float_round x - x = (of_int (round_even (x / q)) - x / q) * q"
    using q0 by (simp add: fr field_simps)
  then have "\<bar>float_round x - x\<bar> = \<bar>of_int (round_even (x / q)) - x / q\<bar> * q"
    using q0 by (simp add: abs_mult)
  also have "\<dots> \<le> (1 / 2) * q"
    using round_even_err [of "x / q"] q0 by (intro mult_right_mono) simp_all
  finally have b: "\<bar>float_round x - x\<bar> \<le> q / 2" by simp
  have qe: "q = 2 powi e / 2 ^ 23"
    by (simp add: q_def power_int_diff)
  show ?thesis
  proof (cases "- 126 \<le> ilog2 \<bar>x\<bar>")
    case True
    then have "e = ilog2 \<bar>x\<bar>" by (simp add: e_def)
    then have "2 powi e \<le> \<bar>x\<bar>" using ilog2_le [of "\<bar>x\<bar>"] False by simp
    then have "q / 2 \<le> \<bar>x\<bar> / 2 ^ 24" by (simp add: qe)
    moreover have "(0::rat) \<le> 1 / 2 ^ 150" by simp
    ultimately show ?thesis using b by linarith
  next
    case False
    then have "e = - 126" by (simp add: e_def)
    then have "q = 1 / 2 ^ 149" by (simp add: q_def power_int_def field_simps)
    then have "q / 2 = 1 / 2 ^ 150" by simp
    moreover have "0 \<le> \<bar>x\<bar> / 2 ^ 24" by simp
    ultimately show ?thesis using b by linarith
  qed
qed

lemma float_round_coarse: "\<bar>float_round x - x\<bar> \<le> \<bar>x\<bar> / 100 + 1 / 1000000"
proof -
  have "\<bar>x\<bar> / 2 ^ 24 \<le> \<bar>x\<bar> / 100" by (intro divide_left_mono) simp_all
  moreover have "(1::rat) / 2 ^ 150 \<le> 1 / 1000000" by (intro divide_left_mono) simp_all
  ultimately show ?thesis using float_round_err [of x] by linarith
qed

subsection \<open>The literals and the speed steps\<close>

lemma float_0_15: "float_round (15 / 100) = 5033165 / 33554432"
  by code_simp

lemma float_0_02: "float_round (2 / 100) = 10737418 / 536870912"
  by code_simp

lemma float_0_05: "float_round (5 / 100) = 13421773 / 268435456"
  by code_simp

lemma float_0_13: "float_round (13 / 100) = 8724152 / 67108864"
  by code_simp

lemma calculateSpeed_speed_at: "calculateSpeed g = speed_at (cpp_div (score g) 30)"
  by (simp add: calculateSpeed_def speed_at_def Let_def)

lemma speed_at_0: "speed_at 0 = 5033165 / 33554432"
  by code_simp

lemma speed_at_1: "speed_at 1 = 8724153 / 67108864"
  by code_simp

lemma speed_at_2: "speed_at 2 = 14763951 / 134217728"
  by code_simp

lemma speed_at_3: "speed_at 3 = 3019899 / 33554432"
  by code_simp

lemma speed_at_4: "speed_at 4 = 4697621 / 67108864"
  by code_simp

lemma speed_at_5: "speed_at 5 = 838861 / 16777216"
  by code_simp

lemma speed_at_10: "speed_at 10 = 13421773 / 268435456"
  by code_simp

text \<open>From the sixth step on the difference lies below \<^verbatim>\<open>0.05f\<close>, whatever the rounding
  does: the clamp applies.\<close>

lemma speed_at_min:
  assumes "6 \<le> n"
  shows "speed_at n = 13421773 / 268435456"
proof -
  define a where "a = float_round (of_int n)"
  define inc where "inc = float_round (a * (10737418 / 536870912))"
  define d where "d = 5033165 / 33554432 - inc"
  have n6: "(6::rat) \<le> of_int n" using assms by simp
  have "\<bar>a - of_int n\<bar> \<le> \<bar>of_int n\<bar> / 100 + 1 / 1000000"
    unfolding a_def by (rule float_round_coarse)
  then have a: "59 / 10 \<le> a" using n6 by linarith
  have "\<bar>inc - a * (10737418 / 536870912)\<bar> \<le> \<bar>a * (10737418 / 536870912)\<bar> / 100 + 1 / 1000000"
    unfolding inc_def by (rule float_round_coarse)
  then have inc: "116 / 1000 \<le> inc" using a by linarith
  have dd: "d \<le> 35 / 1000" using inc by (simp add: d_def)
  have "\<bar>float_round d - d\<bar> \<le> \<bar>d\<bar> / 100 + 1 / 1000000"
    by (rule float_round_coarse)
  then have le: "float_round d \<le> 13421773 / 268435456" using dd by linarith
  have "speed_at n = max (13421773 / 268435456) (float_round d)"
    unfolding speed_at_def float_0_15 float_0_02 float_0_05 a_def inc_def d_def ..
  also have "\<dots> = 13421773 / 268435456" using le by (rule max_absorb1)
  finally show ?thesis .
qed

lemma speed_at_table: "0 \<le> n \<Longrightarrow> speed_at n = speed_table n"
proof -
  assume "0 \<le> n"
  then consider "n = 0" | "n = 1" | "n = 2" | "n = 3" | "n = 4" | "n = 5" | "6 \<le> n"
    by linarith
  then show ?thesis
    by cases (simp_all add: speed_table_def speed_at_0 speed_at_1 speed_at_2 speed_at_3
        speed_at_4 speed_at_5 speed_at_min)
qed

lemma speed_table_step: "0 \<le> n \<Longrightarrow> speed_table (n + 1) \<le> speed_table n"
  by (simp add: speed_table_def)

lemma speed_table_antimono: "0 \<le> m \<Longrightarrow> m \<le> n \<Longrightarrow> speed_table n \<le> speed_table m"
proof (induction "nat (n - m)" arbitrary: n)
  case 0
  then show ?case by simp
next
  case (Suc k)
  then have k: "k = nat ((n - 1) - m)" and mn: "m \<le> n - 1" by linarith+
  have "speed_table n \<le> speed_table (n - 1)"
    using speed_table_step [of "n - 1"] Suc.prems mn by simp
  also have "\<dots> \<le> speed_table m" using Suc.hyps(1) [OF k Suc.prems(1) mn] .
  finally show ?case .
qed

lemma speed_table_approx:
  "0 \<le> n \<Longrightarrow> \<bar>speed_table n - max (1 / 20) (3 / 20 - of_int n * (1 / 50))\<bar> \<le> 1 / 2 ^ 26"
proof -
  assume "0 \<le> n"
  then consider "n = 0" | "n = 1" | "n = 2" | "n = 3" | "n = 4" | "n = 5" | "6 \<le> n"
    by linarith
  then show ?thesis
  proof cases
    case 7
    then have "(6::rat) \<le> of_int n" by simp
    then have "max (1 / 20) (3 / 20 - of_int n * (1 / 50)) = (1 / 20 :: rat)"
      by (intro max_absorb1) linarith
    then show ?thesis using 7 by (simp add: speed_table_def)
  qed (simp_all add: speed_table_def)
qed

lemma calculateSpeed_table:
  "0 \<le> score g \<Longrightarrow> calculateSpeed g = speed_table (score g div 30)"
  by (simp add: calculateSpeed_speed_at cpp_div_nonneg speed_at_table)

lemma calculateSpeed_antimono:
  assumes "0 \<le> score g" "score g \<le> score g'"
  shows "calculateSpeed g' \<le> calculateSpeed g"
proof -
  have "score g div 30 \<le> score g' div 30" using assms by (simp add: zdiv_mono1)
  moreover have "0 \<le> score g div 30" using assms by simp
  ultimately show ?thesis
    using assms by (simp add: calculateSpeed_table speed_table_antimono)
qed

text \<open>
  C8 (as amended). For every non-negative score, calculateSpeed is
  \<^verbatim>\<open>max(0.05f, 0.15f - float(score / 30) * 0.02f)\<close> evaluated in single precision, every
  literal and operation rounded: one of the seven values of \<open>speed_table\<close>, within
  \<open>1 / 2 ^ 26\<close> of the real number \<open>max(0.05, 0.15 - floor(score / 30) * 0.02)\<close>. At score 0
  it is the float of 0.15, at score 300 the float of 0.05 (clamped at the minimum), and at
  score 30 it is \<open>8724153 / 2 ^ 26\<close>, the float next above the float of 0.13. It never
  increases with the score. getDifficultyLevel is \<open>score div 50 + 1\<close>. Both depend on the
  score alone.
\<close>

theorem calculateSpeed_binary32:
  "(0 \<le> score g \<longrightarrow>
       calculateSpeed g = speed_at (score g div 30)
     \<and> calculateSpeed g = speed_table (score g div 30)
     \<and> \<bar>calculateSpeed g - max (1 / 20) (3 / 20 - of_int (score g div 30) * (1 / 50))\<bar> \<le> 1 / 2 ^ 26
     \<and> getDifficultyLevel g = score g div 50 + 1)
   \<and> (score g = 0 \<longrightarrow>
        calculateSpeed g = float_round (15 / 100) \<and> calculateSpeed g = 5033165 / 2 ^ 25)
   \<and> (score g = 30 \<longrightarrow>
        calculateSpeed g = float_round (13 / 100) + 1 / 2 ^ 26 \<and> calculateSpeed g = 8724153 / 2 ^ 26)
   \<and> (score g = 300 \<longrightarrow>
        calculateSpeed g = float_round (5 / 100) \<and> calculateSpeed g = 13421773 / 2 ^ 28)
   \<and> (0 \<le> score g \<and> score g \<le> score g' \<longrightarrow> calculateSpeed g' \<le> calculateSpeed g)
   \<and> (score g = score g' \<longrightarrow>
        calculateSpeed g = calculateSpeed g' \<and> getDifficultyLevel g = getDifficultyLevel g')"
proof -
  have gen: "calculateSpeed g = speed_at (score g div 30)
     \<and> calculateSpeed g = speed_table (score g div 30)
     \<and> \<bar>calculateSpeed g - max (1 / 20) (3 / 20 - of_int (score g div 30) * (1 / 50))\<bar> \<le> 1 / 2 ^ 26
     \<and> getDifficultyLevel g = score g div 50 + 1" if "0 \<le> score g"
  proof -
    have n: "0 \<le> score g div 30" using that by simp
    show ?thesis
      using that speed_table_approx [OF n]
      by (simp add: calculateSpeed_table getDifficultyLevel_floor)
         (simp add: calculateSpeed_speed_at cpp_div_nonneg calculateSpeed_table [symmetric])
  qed
  have p2: "(2::rat) ^ 25 = 33554432" "(2::rat) ^ 26 = 67108864" "(2::rat) ^ 28 = 268435456"
    by simp_all
  have v0: "calculateSpeed g = float_round (15 / 100) \<and> calculateSpeed g = 5033165 / 2 ^ 25"
    if "score g = 0"
  proof -
    have "calculateSpeed g = speed_at 0"
      using that by (simp add: calculateSpeed_speed_at cpp_div_def)
    then show ?thesis unfolding speed_at_0 float_0_15 p2 by simp
  qed
  have v30: "calculateSpeed g = float_round (13 / 100) + 1 / 2 ^ 26 \<and> calculateSpeed g = 8724153 / 2 ^ 26"
    if "score g = 30"
  proof -
    have "calculateSpeed g = speed_at 1"
      using that by (simp add: calculateSpeed_speed_at cpp_div_def)
    then show ?thesis unfolding speed_at_1 float_0_13 p2 by simp
  qed
  have v300: "calculateSpeed g = float_round (5 / 100) \<and> calculateSpeed g = 13421773 / 2 ^ 28"
    if "score g = 300"
  proof -
    have "calculateSpeed g = speed_at 10"
      using that by (simp add: calculateSpeed_speed_at cpp_div_def)
    then show ?thesis unfolding speed_at_10 float_0_05 p2 by simp
  qed
  have mono: "calculateSpeed g' \<le> calculateSpeed g" if "0 \<le> score g \<and> score g \<le> score g'"
    using that by (simp add: calculateSpeed_antimono)
  have pure: "calculateSpeed g = calculateSpeed g' \<and> getDifficultyLevel g = getDifficultyLevel g'"
    if "score g = score g'"
    using that by (simp add: calculateSpeed_def getDifficultyLevel_def)
  from gen v0 v30 v300 mono pure show ?thesis by blast
qed

text \<open>
  The claim as first stated gives the speed interval at score 30 as 0.13. The value
  computed is \<open>8724153 / 2 ^ 26\<close> (0.13000001013278961...): the product
  \<^verbatim>\<open>1.0f * 0.02f\<close> is the float of 0.02, which lies below 0.02, the float of 0.15 lies
  above 0.15, and their difference rounds to the float one unit in the last place above
  the float of 0.13. It is neither the number 0.13 nor the float written \<^verbatim>\<open>0.13f\<close>.
\<close>

theorem calculateSpeed_binary32_counterexample:
  "score (game0\<lparr>score := 30\<rparr>) = 30
   \<and> calculateSpeed (game0\<lparr>score := 30\<rparr>) = 8724153 / 67108864
   \<and> calculateSpeed (game0\<lparr>score := 30\<rparr>) \<noteq> 13 / 100
   \<and> float_round (13 / 100) = 8724152 / 67108864
   \<and> calculateSpeed (game0\<lparr>score := 30\<rparr>) \<noteq> float_round (13 / 100)"
  by (simp add: calculateSpeed_speed_at cpp_div_def speed_at_1 float_0_13)

theorem calculateSpeed_binary32_witness:
  "score game0 = 0
   \<and> calculateSpeed game0 = 5033165 / 33554432
   \<and> getDifficultyLevel game0 = 1
   \<and> calculateSpeed (game0\<lparr>score := 30\<rparr>) = 8724153 / 67108864
   \<and> calculateSpeed (game0\<lparr>score := 300\<rparr>) = 13421773 / 268435456
   \<and> calculateSpeed (game0\<lparr>score := 300\<rparr>) \<le> calculateSpeed (game0\<lparr>score := 30\<rparr>)
   \<and> getDifficultyLevel (game0\<lparr>score := 120\<rparr>) = 3
   \<and> calculateSpeed (game0\<lparr>score := 120\<rparr>) = speed_table 4
   \<and> calculateSpeed (game0\<lparr>score := 120, playerName := ''x''\<rparr>) = calculateSpeed (game0\<lparr>score := 120\<rparr>)"
proof -
  have z: "score game0 = 0" by (simp add: game0_def)
  note a = calculateSpeed_binary32 [of game0 game0]
  note b = calculateSpeed_binary32 [of "game0\<lparr>score := 30\<rparr>" "game0\<lparr>score := 300\<rparr>"]
  note c = calculateSpeed_binary32 [of "game0\<lparr>score := 300\<rparr>" "game0\<lparr>score := 300\<rparr>"]
  note d = calculateSpeed_binary32 [of "game0\<lparr>score := 120\<rparr>" "game0\<lparr>score := 120, playerName := ''x''\<rparr>"]
  from a z have 1: "calculateSpeed game0 = 5033165 / 33554432" "getDifficultyLevel game0 = 1"
    by simp_all
  from b have 2: "calculateSpeed (game0\<lparr>score := 30\<rparr>) = 8724153 / 67108864"
    "calculateSpeed (game0\<lparr>score := 300\<rparr>) \<le> calculateSpeed (game0\<lparr>score := 30\<rparr>)"
    by simp_all
  from c have 3: "calculateSpeed (game0\<lparr>score := 300\<rparr>) = 13421773 / 268435456"
    by simp
  from d have 4: "getDifficultyLevel (game0\<lparr>score := 120\<rparr>) = 3"
    "calculateSpeed (game0\<lparr>score := 120\<rparr>) = speed_table 4"
    "calculateSpeed (game0\<lparr>score := 120, playerName := ''x''\<rparr>) = calculateSpeed (game0\<lparr>score := 120\<rparr>)"
    by simp_all
  from z 1 2 3 4 show ?thesis by simp
qed

section \<open>Food placement\<close>

lemma Position_eta: "\<lparr>pos_x = pos_x p, pos_y = pos_y p\<rparr> = (p::Position)"
  by simp

lemma in_emptyPositions:
  "p \<in> set (emptyPositions g) \<longleftrightarrow>
     0 \<le> pos_x p \<and> pos_x p < 30 \<and> 0 \<le> pos_y p \<and> pos_y p < 20
     \<and> p \<notin> set (snake g) \<and> p \<notin> set (obstacles g)"
proof
  assume "p \<in> set (emptyPositions g)"
  then show "0 \<le> pos_x p \<and> pos_x p < 30 \<and> 0 \<le> pos_y p \<and> pos_y p < 20
     \<and> p \<notin> set (snake g) \<and> p \<notin> set (obstacles g)"
    by (auto simp: emptyPositions_def Let_def hits_any_iff GRID_WIDTH_def GRID_HEIGHT_def
        split: if_splits)
next
  assume r: "0 \<le> pos_x p \<and> pos_x p < 30 \<and> 0 \<le> pos_y p \<and> pos_y p < 20
     \<and> p \<notin> set (snake g) \<and> p \<notin> set (obstacles g)"
  from r have i: "p \<in> set (if hits_any (snake g) \<lparr>pos_x = pos_x p, pos_y = pos_y p\<rparr> then []
                    else if hits_any (obstacles g) \<lparr>pos_x = pos_x p, pos_y = pos_y p\<rparr> then []
                    else [\<lparr>pos_x = pos_x p, pos_y = pos_y p\<rparr>])"
    by (simp add: hits_any_iff Position_eta)
  from r have x: "pos_x p \<in> {0..29}" and y: "pos_y p \<in> {0..19}" by auto
  from i x y have "\<exists>xa\<in>{0..29}. \<exists>xb\<in>{0..19}.
          p \<in> set (if hits_any (snake g) \<lparr>pos_x = xa, pos_y = xb\<rparr> then []
                    else if hits_any (obstacles g) \<lparr>pos_x = xa, pos_y = xb\<rparr> then []
                    else [\<lparr>pos_x = xa, pos_y = xb\<rparr>])"
    by blast
  then show "p \<in> set (emptyPositions g)"
    by (auto simp: emptyPositions_def Let_def GRID_WIDTH_def GRID_HEIGHT_def split: if_splits)
qed

lemma set_emptyPositions:
  "set (emptyPositions g) =
     {p. 0 \<le> pos_x p \<and> pos_x p < 30 \<and> 0 \<le> pos_y p \<and> pos_y p < 20
         \<and> p \<notin> set (snake g) \<and> p \<notin> set (obstacles g)}"
  using in_emptyPositions by blast

lemma generateFood_fresh:
  assumes "emptyPositions g \<noteq> []"
  shows "food (generateFood r g) \<notin> set (snake g) \<and> food (generateFood r g) \<notin> set (obstacles g)"
proof -
  from assms have "food (generateFood r g) \<in> set (emptyPositions g)"
    by (simp add: generateFood_def Let_def)
  then show ?thesis by (simp add: in_emptyPositions)
qed

text \<open>
  C9. generateFood never fails on a full board: when no empty cell exists (every cell of
  the grid holds a snake segment or an obstacle) the food position is left unchanged and
  nothing is selected from the empty candidate list; when an empty cell exists, the index
  \<open>rand() % size\<close> is within the list and the chosen cell coincides with no snake segment
  and no obstacle (and lies in the grid).
\<close>

theorem generateFood_safe:
  "(emptyPositions g = [] \<longrightarrow> generateFood r g = g)
   \<and> (emptyPositions g \<noteq> [] \<longrightarrow>
        r mod length (emptyPositions g) < length (emptyPositions g)
        \<and> generateFood r g = g\<lparr>food := emptyPositions g ! (r mod length (emptyPositions g))\<rparr>
        \<and> food (generateFood r g) \<notin> set (snake g)
        \<and> food (generateFood r g) \<notin> set (obstacles g)
        \<and> 0 \<le> pos_x (food (generateFood r g)) \<and> pos_x (food (generateFood r g)) < 30
        \<and> 0 \<le> pos_y (food (generateFood r g)) \<and> pos_y (food (generateFood r g)) < 20)
   \<and> (emptyPositions g = [] \<longleftrightarrow>
        (\<forall>x y. 0 \<le> x \<and> x < 30 \<and> 0 \<le> y \<and> y < 20 \<longrightarrow>
           \<lparr>pos_x = x, pos_y = y\<rparr> \<in> set (snake g) \<union> set (obstacles g)))"
proof -
  have full: "emptyPositions g = [] \<longleftrightarrow>
        (\<forall>x y. 0 \<le> x \<and> x < 30 \<and> 0 \<le> y \<and> y < 20 \<longrightarrow>
           \<lparr>pos_x = x, pos_y = y\<rparr> \<in> set (snake g) \<union> set (obstacles g))"
  proof -
    have "emptyPositions g = [] \<longleftrightarrow> set (emptyPositions g) = {}" by simp
    also have "\<dots> \<longleftrightarrow> (\<forall>p. 0 \<le> pos_x p \<and> pos_x p < 30 \<and> 0 \<le> pos_y p \<and> pos_y p < 20
         \<longrightarrow> p \<in> set (snake g) \<union> set (obstacles g))"
      unfolding set_emptyPositions by auto
    also have "\<dots> \<longleftrightarrow> (\<forall>x y. 0 \<le> x \<and> x < 30 \<and> 0 \<le> y \<and> y < 20 \<longrightarrow>
           \<lparr>pos_x = x, pos_y = y\<rparr> \<in> set (snake g) \<union> set (obstacles g))"
    proof
      assume a: "\<forall>p. 0 \<le> pos_x p \<and> pos_x p < 30 \<and> 0 \<le> pos_y p \<and> pos_y p < 20
         \<longrightarrow> p \<in> set (snake g) \<union> set (obstacles g)"
      show "\<forall>x y. 0 \<le> x \<and> x < 30 \<and> 0 \<le> y \<and> y < 20 \<longrightarrow>
           \<lparr>pos_x = x, pos_y = y\<rparr> \<in> set (snake g) \<union> set (obstacles g)"
      proof (intro allI impI)
        fix x y :: int assume "0 \<le> x \<and> x < 30 \<and> 0 \<le> y \<and> y < 20"
        then show "\<lparr>pos_x = x, pos_y = y\<rparr> \<in> set (snake g) \<union> set (obstacles g)"
          using a [rule_format, of "\<lparr>pos_x = x, pos_y = y\<rparr>"] by simp
      qed
    next
      assume a: "\<forall>x y. 0 \<le> x \<and> x < 30 \<and> 0 \<le> y \<and> y < 20 \<longrightarrow>
           \<lparr>pos_x = x, pos_y = y\<rparr> \<in> set (snake g) \<union> set (obstacles g)"
      show "\<forall>p. 0 \<le> pos_x p \<and> pos_x p < 30 \<and> 0 \<le> pos_y p \<and> pos_y p < 20
         \<longrightarrow> p \<in> set (snake g) \<union> set (obstacles g)"
      proof (intro allI impI)
        fix p :: Position assume "0 \<le> pos_x p \<and> pos_x p < 30 \<and> 0 \<le> pos_y p \<and> pos_y p < 20"
        then show "p \<in> set (snake g) \<union> set (obstacles g)"
          using a [rule_format, of "pos_x p" "pos_y p"] by (simp add: Position_eta)
      qed
    qed
    finally show ?thesis .
  qed
  have none: "emptyPositions g = [] \<Longrightarrow> generateFood r g = g"
    by (simp add: generateFood_def)
  have upd: "emptyPositions g \<noteq> [] \<Longrightarrow>
      generateFood r g = g\<lparr>food := emptyPositions g ! (r mod length (emptyPositions g))\<rparr>"
    by (simp add: generateFood_def Let_def)
  have idx: "emptyPositions g \<noteq> [] \<Longrightarrow> r mod length (emptyPositions g) < length (emptyPositions g)"
    by simp
  have mem: "emptyPositions g \<noteq> [] \<Longrightarrow> food (generateFood r g) \<in> set (emptyPositions g)"
    using idx by (simp add: upd)
  show ?thesis
    using full none upd idx mem [unfolded in_emptyPositions] by blast
qed

text \<open>The board of \<open>game0\<close> has empty cells; the board of \<open>game_full\<close>, whose snake covers
  all 600 cells, has none.\<close>

theorem generateFood_safe_witness:
  "emptyPositions game0 \<noteq> []
   \<and> food (generateFood 7 game0) \<notin> set (snake game0)
   \<and> food (generateFood 7 game0) \<notin> set (obstacles game0)
   \<and> emptyPositions game_full = []
   \<and> generateFood 7 game_full = game_full"
proof -
  have "\<lparr>pos_x = 0, pos_y = 0\<rparr> \<notin> set (snake game0) \<union> set (obstacles game0)"
    by (simp add: game0_def)
  then have "\<not> (\<forall>x y. 0 \<le> x \<and> x < 30 \<and> 0 \<le> y \<and> y < 20 \<longrightarrow>
           \<lparr>pos_x = x, pos_y = y\<rparr> \<in> set (snake game0) \<union> set (obstacles game0))"
    by (intro notI) (drule spec [of _ 0], drule spec [of _ 0], simp)
  then have ne: "emptyPositions game0 \<noteq> []"
    using generateFood_safe [of game0 7] by blast
  have "\<forall>x y. 0 \<le> x \<and> x < 30 \<and> 0 \<le> y \<and> y < 20 \<longrightarrow>
           \<lparr>pos_x = x, pos_y = y\<rparr> \<in> set (snake game_full) \<union> set (obstacles game_full)"
    by (auto simp: game_full_def all_cells_def image_iff)
  then have e: "emptyPositions game_full = []"
    using generateFood_safe [of game_full 7] by blast
  show ?thesis
    using ne e generateFood_safe [of game0 7] generateFood_safe [of game_full 7] by blast
qed

section \<open>The tick without a collision: growth and length\<close>

lemma moveSnake_SomeD:
  "moveSnake (g\<lparr>currentDirection := nextDirection g\<rparr>) = Some g2 \<Longrightarrow>
   \<exists>head body. snake g = head # body \<and> g2 = moved g head"
  by (cases "snake g") (auto simp: moveSnake_def front_def moved_def)

lemma update_plain:
  assumes "moveSnake (g\<lparr>currentDirection := nextDirection g\<rparr>) = Some g2"
    and "checkCollision g2 = Some False" and "front (snake g2) = Some h" and "h \<noteq> food g"
  shows "update srt r True g = Some (g2\<lparr>snake := butlast (h # snake g)\<rparr>)"
proof -
  from assms(1) obtain head body where sn: "snake g = head # body" and g2: "g2 = moved g head"
    using moveSnake_SomeD by blast
  from assms(3) have h: "h = newHead (nextDirection g) head"
    by (simp add: g2 moved_def front_def)
  show ?thesis
    using assms(2,4) sn by (simp add: update_tick g2 [symmetric] h)
qed

lemma update_eat:
  assumes "moveSnake (g\<lparr>currentDirection := nextDirection g\<rparr>) = Some g2"
    and "checkCollision g2 = Some False" and "front (snake g2) = Some h" and "h = food g"
  shows "update srt r True g = Some (generateFood r (g2\<lparr>score := score g + 10\<rparr>))"
proof -
  from assms(1) obtain head body where sn: "snake g = head # body" and g2: "g2 = moved g head"
    using moveSnake_SomeD by blast
  from assms(3) have h: "h = newHead (nextDirection g) head"
    by (simp add: g2 moved_def front_def)
  show ?thesis
    using assms(2,4) sn by (simp add: update_tick g2 [symmetric] h)
qed

lemma moved_fields:
  "moveSnake (g\<lparr>currentDirection := nextDirection g\<rparr>) = Some g2 \<Longrightarrow> front (snake g2) = Some h \<Longrightarrow>
   snake g2 = h # snake g \<and> score g2 = score g \<and> food g2 = food g"
  by (auto dest!: moveSnake_SomeD simp: moved_def front_def)

lemma plain_ticks_length:
  "plain_ticks srt n g g' \<Longrightarrow> length (snake g') = length (snake g)"
proof (induction rule: plain_ticks.induct)
  case (no_frame g)
  show ?case by simp
next
  case (idle_frame n g g1 g2 IsKeyPressed r g3)
  from idle_frame.hyps have "g3 = handleGameInput srt IsKeyPressed g1"
    by (simp add: update_def)
  then have "snake g3 = snake g1" by simp
  with idle_frame.IH show ?case by simp
next
  case (tick_frame n g g1 g2 IsKeyPressed m h r g3)
  from tick_frame.hyps(5,7) have f: "snake m = h # snake g2" "food m = food g2"
    using moved_fields by blast+
  with tick_frame.hyps have "update srt r True g2 = Some (m\<lparr>snake := butlast (h # snake g2)\<rparr>)"
    by (intro update_plain) simp_all
  with tick_frame.hyps(9) have "snake g3 = butlast (h # snake g2)" by auto
  then have "length (snake g3) = length (snake g2)" by simp
  with tick_frame show ?case by simp
qed

lemma snake_reset: "snake (reset r g) = snake (initializeSnake g)"
  by (simp add: reset_def)

lemma emptyPositions_score: "emptyPositions (g\<lparr>score := sc\<rparr>) = emptyPositions g"
  by (simp add: emptyPositions_def Let_def cong: if_cong)

subsection \<open>The move that fills the board\<close>

lemma tl_snake_path:
  "tl snake_path = \<lparr>pos_x = 0, pos_y = 1\<rparr> #
     map (\<lambda>y. \<lparr>pos_x = 0, pos_y = y\<rparr>) [2..19]
     @ concat (map (\<lambda>x. map (\<lambda>y. \<lparr>pos_x = x, pos_y = (if even x then y else 19 - y)\<rparr>) [0..19]) [1..29])"
  by (simp add: snake_path_def upto_rec1 [of 0 29] upto_rec1 [of 0 19] upto_rec1 [of 1 19])

lemma snake_path_Cons: "snake_path = \<lparr>pos_x = 0, pos_y = 0\<rparr> # tl snake_path"
  by (simp add: snake_path_def upto_rec1 [of 0 29] upto_rec1 [of 0 19])

lemma origin_not_in_tl: "\<lparr>pos_x = 0, pos_y = 0\<rparr> \<notin> set (tl snake_path)"
  by (auto simp: tl_snake_path)

lemma length_snake_path: "length snake_path = 600"
  by (simp add: snake_path_def length_concat comp_def sum_list_triv)

lemma snake_path_covers:
  assumes "0 \<le> pos_x p" "pos_x p < 30" "0 \<le> pos_y p" "pos_y p < 20"
  shows "p \<in> set snake_path"
proof -
  define y where "y = (if even (pos_x p) then pos_y p else 19 - pos_y p)"
  define col where "col = (\<lambda>x. map (\<lambda>y. \<lparr>pos_x = x, pos_y = (if even x then y else 19 - y)\<rparr>) [0..19])"
  have y: "y \<in> set [0..19]" using assms by (simp add: y_def)
  have x: "pos_x p \<in> set [0..29]" using assms by simp
  have "p \<in> set (col (pos_x p))"
    unfolding col_def set_map
  proof (rule image_eqI [where x = y])
    show "p = \<lparr>pos_x = pos_x p, pos_y = (if even (pos_x p) then y else 19 - y)\<rparr>"
      by (simp add: y_def)
    show "y \<in> set [0..19]" by (rule y)
  qed
  with x have "\<exists>c \<in> set (map col [0..29]). p \<in> set c" by (intro bexI [where x = "col (pos_x p)"]) simp_all
  then have "p \<in> set (concat (map col [0..29]))" by (simp only: set_concat UN_iff)
  then show ?thesis by (simp add: snake_path_def col_def)
qed

lemma game_last_snake: "snake game_last = \<lparr>pos_x = 0, pos_y = 1\<rparr> # tl (tl snake_path)"
  by (simp add: game_last_def tl_snake_path)

lemma game_last_length: "length (snake game_last) = 599"
  by (simp add: game_last_def length_snake_path)

lemma game_last_moved:
  "snake (moved game_last \<lparr>pos_x = 0, pos_y = 1\<rparr>) = \<lparr>pos_x = 0, pos_y = 0\<rparr> # tl snake_path"
  "obstacles (moved game_last \<lparr>pos_x = 0, pos_y = 1\<rparr>) = []"
  "food (moved game_last \<lparr>pos_x = 0, pos_y = 1\<rparr>) = \<lparr>pos_x = 0, pos_y = 0\<rparr>"
  by (simp_all add: moved_def game_last_def game0_def newHead_def)

lemma game_last_move:
  "moveSnake (game_last\<lparr>currentDirection := nextDirection game_last\<rparr>)
     = Some (moved game_last \<lparr>pos_x = 0, pos_y = 1\<rparr>)"
  by (rule moveSnake_moved) (rule game_last_snake)

lemma game_last_head:
  "front (snake (moved game_last \<lparr>pos_x = 0, pos_y = 1\<rparr>)) = Some \<lparr>pos_x = 0, pos_y = 0\<rparr>"
  unfolding game_last_moved(1) by (simp add: front_def)

lemma game_last_no_collision:
  "checkCollision (moved game_last \<lparr>pos_x = 0, pos_y = 1\<rparr>) = Some False"
proof -
  have b: "\<not> hits_body (\<lparr>pos_x = 0, pos_y = 0\<rparr> # tl snake_path) 1 \<lparr>pos_x = 0, pos_y = 0\<rparr>"
    using origin_not_in_tl by (simp add: hits_body_iff)
  show ?thesis
    unfolding checkCollision_def game_last_moved front_def
    using b by (simp add: GRID_WIDTH_def GRID_HEIGHT_def)
qed

lemma game_last_full: "emptyPositions (moved game_last \<lparr>pos_x = 0, pos_y = 1\<rparr>) = []"
proof -
  have sn: "snake (moved game_last \<lparr>pos_x = 0, pos_y = 1\<rparr>) = snake_path"
    unfolding game_last_moved(1) by (rule snake_path_Cons [symmetric])
  have ne: "p \<notin> set (emptyPositions (moved game_last \<lparr>pos_x = 0, pos_y = 1\<rparr>))" for p
    unfolding in_emptyPositions sn using snake_path_covers [of p] by blast
  show ?thesis
  proof (cases "emptyPositions (moved game_last \<lparr>pos_x = 0, pos_y = 1\<rparr>)")
    case Nil
    then show ?thesis .
  next
    case (Cons a rest)
    then have "a \<in> set (emptyPositions (moved game_last \<lparr>pos_x = 0, pos_y = 1\<rparr>))" by simp
    with ne show ?thesis by blast
  qed
qed

lemma game_last_tick:
  "update srt r True game_last
     = Some ((moved game_last \<lparr>pos_x = 0, pos_y = 1\<rparr>)\<lparr>score := score game_last + 10\<rparr>)"
proof -
  have h: "\<lparr>pos_x = 0, pos_y = 0\<rparr> = food game_last" by (simp add: game_last_def)
  have e: "emptyPositions ((moved game_last \<lparr>pos_x = 0, pos_y = 1\<rparr>)\<lparr>score := score game_last + 10\<rparr>) = []"
    unfolding emptyPositions_score by (rule game_last_full)
  show ?thesis
    unfolding update_eat [OF game_last_move game_last_no_collision game_last_head h] generateFood_def e
    by simp
qed

subsection \<open>Growth\<close>

text \<open>
  C2 (as amended). For every tick on which no collision occurs (\<open>g2\<close> is the state after
  the move, \<open>h\<close> its new head): if the new head equals the food position, the tail is not
  removed (the length grows by exactly 1), the score grows by exactly 10 and generateFood
  runs: when a free cell is left, the food moves to a cell off the snake and the
  obstacles, away from the cell just eaten; when the move has filled the board, the food
  position stays what it was, under the new head. Otherwise the tail is removed and the
  length is unchanged. A run of frames in the PLAYING state with \<open>n\<close> such ticks and no
  food eaten keeps the length, which is 3 after reset.
\<close>

theorem update_growth:
  assumes "moveSnake (g\<lparr>currentDirection := nextDirection g\<rparr>) = Some g2"
    and "checkCollision g2 = Some False"
    and "front (snake g2) = Some h"
  shows "(h = food g \<longrightarrow>
            update srt r True g = Some (generateFood r (g2\<lparr>score := score g + 10\<rparr>))
            \<and> (\<exists>g'. update srt r True g = Some g' \<and> snake g' = h # snake g
                   \<and> length (snake g') = length (snake g) + 1 \<and> score g' = score g + 10)
            \<and> (emptyPositions g2 \<noteq> [] \<longrightarrow>
                 (\<exists>g'. update srt r True g = Some g' \<and> food g' \<notin> set (snake g')
                        \<and> food g' \<notin> set (obstacles g') \<and> food g' \<noteq> food g))
            \<and> (emptyPositions g2 = [] \<longrightarrow>
                 (\<exists>g'. update srt r True g = Some g' \<and> food g' = food g
                        \<and> food g' \<in> set (snake g'))))
       \<and> (h \<noteq> food g \<longrightarrow>
            (\<exists>g'. update srt r True g = Some g' \<and> snake g' = butlast (h # snake g)
                   \<and> length (snake g') = length (snake g) \<and> score g' = score g))
       \<and> (plain_ticks srt n ga gb \<longrightarrow> length (snake gb) = length (snake ga))
       \<and> length (snake (reset seed gi)) = 3
       \<and> (plain_ticks srt n (reset seed gi) gN \<longrightarrow> length (snake gN) = 3)"
proof -
  note f = moved_fields [OF assms(1,3)]
  have eat: "h = food g \<Longrightarrow> update srt r True g = Some (generateFood r (g2\<lparr>score := score g + 10\<rparr>))"
    using assms by (rule update_eat)
  have plain: "h \<noteq> food g \<Longrightarrow> update srt r True g = Some (g2\<lparr>snake := butlast (h # snake g)\<rparr>)"
    using assms by (rule update_plain)
  have three: "length (snake (reset seed gi)) = 3"
    by (simp add: snake_reset initializeSnake_def)
  have run: "plain_ticks srt n (reset seed gi) gN \<Longrightarrow> length (snake gN) = 3"
    using plain_ticks_length [of srt n "reset seed gi" gN] three by simp
  have fresh: "\<exists>g'. update srt r True g = Some g' \<and> food g' \<notin> set (snake g')
                        \<and> food g' \<notin> set (obstacles g') \<and> food g' \<noteq> food g"
    if "h = food g" and "emptyPositions g2 \<noteq> []"
  proof -
    define ge where "ge = g2\<lparr>score := score g + 10\<rparr>"
    have "emptyPositions ge = emptyPositions g2"
      by (simp add: ge_def emptyPositions_def Let_def cong: if_cong)
    with that(2) have "emptyPositions ge \<noteq> []" by simp
    then have nf: "food (generateFood r ge) \<notin> set (snake ge) \<and> food (generateFood r ge) \<notin> set (obstacles ge)"
      by (rule generateFood_fresh)
    have sn: "snake ge = h # snake g" using f by (simp add: ge_def)
    from nf sn that(1) have "food (generateFood r ge) \<noteq> food g" by auto
    with nf eat [OF that(1)] show ?thesis by (simp add: ge_def [symmetric])
  qed
  have stay: "\<exists>g'. update srt r True g = Some g' \<and> food g' = food g \<and> food g' \<in> set (snake g')"
    if "h = food g" and "emptyPositions g2 = []"
  proof -
    define ge where "ge = g2\<lparr>score := score g + 10\<rparr>"
    have "emptyPositions ge = []" using that(2) by (simp add: ge_def emptyPositions_score)
    then have "generateFood r ge = ge" by (simp add: generateFood_def)
    moreover have "food ge = food g" "snake ge = h # snake g" using f by (simp_all add: ge_def)
    ultimately show ?thesis using eat [OF that(1)] that(1) by (simp add: ge_def [symmetric])
  qed
  have grow: "\<exists>g'. update srt r True g = Some g' \<and> snake g' = h # snake g
                   \<and> length (snake g') = length (snake g) + 1 \<and> score g' = score g + 10"
    if "h = food g"
    using eat [OF that] f by simp
  have keep: "\<exists>g'. update srt r True g = Some g' \<and> snake g' = butlast (h # snake g)
                   \<and> length (snake g') = length (snake g) \<and> score g' = score g"
    if "h \<noteq> food g"
    using plain [OF that] f by simp
  from eat grow fresh stay keep three run plain_ticks_length [of srt n ga gb] show ?thesis
    by blast
qed

lemma emptyPositions_first:
  "\<lparr>pos_x = 0, pos_y = 0\<rparr> \<notin> set (snake g) \<Longrightarrow> \<lparr>pos_x = 0, pos_y = 0\<rparr> \<notin> set (obstacles g) \<Longrightarrow>
   \<exists>rest. emptyPositions g = \<lparr>pos_x = 0, pos_y = 0\<rparr> # rest"
  by (simp add: emptyPositions_def GRID_WIDTH_def GRID_HEIGHT_def Let_def hits_any_iff
      upto_rec1 [of 0 29] upto_rec1 [of 0 19])

lemma generateFood_0:
  "\<lparr>pos_x = 0, pos_y = 0\<rparr> \<notin> set (snake g) \<Longrightarrow> \<lparr>pos_x = 0, pos_y = 0\<rparr> \<notin> set (obstacles g) \<Longrightarrow>
   generateFood 0 g = g\<lparr>food := \<lparr>pos_x = 0, pos_y = 0\<rparr>\<rparr>"
  using emptyPositions_first [of g] by (auto simp: generateFood_def Let_def)

lemma handleGameInput_no_key: "handleGameInput srt (\<lambda>k. False) g = g"
  by (simp add: handleGameInput_def)

lemma plain_tick_step:
  assumes "plain_ticks srt n g g1" and "currentState g1 = PLAYING" and "snake g1 = head # body"
    and "checkCollision (moved g1 head) = Some False"
    and "newHead (nextDirection g1) head \<noteq> food g1"
  shows "plain_ticks srt (Suc n) g
           ((moved g1 head)\<lparr>snake := butlast (newHead (nextDirection g1) head # snake g1)\<rparr>)"
proof (rule tick_frame [OF assms(1,2), where IsKeyPressed = "\<lambda>k. False" and r = 0])
  show "g1 = handleGameInput srt (\<lambda>k. False) g1" by (simp add: handleGameInput_no_key)
  show "currentState g1 = PLAYING" by (rule assms(2))
  show "moveSnake (g1\<lparr>currentDirection := nextDirection g1\<rparr>) = Some (moved g1 head)"
    using assms(3) by (rule moveSnake_moved)
  show "checkCollision (moved g1 head) = Some False" by (rule assms(4))
  show "front (snake (moved g1 head)) = Some (newHead (nextDirection g1) head)"
    by (simp add: moved_def front_def)
  show "newHead (nextDirection g1) head \<noteq> food (moved g1 head)"
    using assms(5) by (simp add: moved_def)
  show "update srt 0 True g1 =
      Some ((moved g1 head)\<lparr>snake := butlast (newHead (nextDirection g1) head # snake g1)\<rparr>)"
    using assms(3,4,5) by (simp add: update_tick)
qed

lemma reset_game0:
  "reset 0 game0 = game0\<lparr>food := \<lparr>pos_x = 0, pos_y = 0\<rparr>\<rparr>"
proof -
  have "generateFood 0 (initializeSnake game0) = (initializeSnake game0)\<lparr>food := \<lparr>pos_x = 0, pos_y = 0\<rparr>\<rparr>"
    by (rule generateFood_0) (simp_all add: initializeSnake_def game0_def GRID_WIDTH_def GRID_HEIGHT_def)
  then show ?thesis
    by (simp add: reset_def) (simp add: initializeSnake_def game0_def GRID_WIDTH_def GRID_HEIGHT_def)
qed

text \<open>
  The claim as first stated ("a new food position is generated") fails on the eating move
  that fills the board. In \<open>game_last\<close> the snake holds 599 cells and the food lies on
  the last free one, (0, 0), next to the head. The tick moves the head there without a
  collision, the snake grows to 600 cells and the score by 10; generateFood finds no
  empty cell and returns, so the food position after the tick is the one before it, and
  it is the cell of the snake's head.
\<close>

theorem update_growth_counterexample:
  "length (snake game_last) = 599
   \<and> front (snake game_last) = Some \<lparr>pos_x = 0, pos_y = 1\<rparr>
   \<and> food game_last = \<lparr>pos_x = 0, pos_y = 0\<rparr>
   \<and> score game_last = 0
   \<and> checkCollision (moved game_last \<lparr>pos_x = 0, pos_y = 1\<rparr>) = Some False
   \<and> front (snake (moved game_last \<lparr>pos_x = 0, pos_y = 1\<rparr>)) = Some (food game_last)
   \<and> map_option score (update insertion_sort 7 True game_last) = Some 10
   \<and> map_option snake (update insertion_sort 7 True game_last)
        = Some (\<lparr>pos_x = 0, pos_y = 0\<rparr> # snake game_last)
   \<and> map_option food (update insertion_sort 7 True game_last) = Some \<lparr>pos_x = 0, pos_y = 0\<rparr>"
proof -
  have 1: "front (snake game_last) = Some \<lparr>pos_x = 0, pos_y = 1\<rparr>"
    unfolding game_last_snake by (simp add: front_def)
  have 2: "food game_last = \<lparr>pos_x = 0, pos_y = 0\<rparr>" "score game_last = 0"
    by (simp_all add: game_last_def game0_def)
  have 3: "front (snake (moved game_last \<lparr>pos_x = 0, pos_y = 1\<rparr>)) = Some (food game_last)"
    unfolding 2 by (rule game_last_head)
  have 4: "map_option score (update insertion_sort 7 True game_last) = Some 10"
    unfolding game_last_tick by (simp add: 2)
  have 5: "map_option snake (update insertion_sort 7 True game_last)
        = Some (\<lparr>pos_x = 0, pos_y = 0\<rparr> # snake game_last)"
    unfolding game_last_tick by (simp add: moved_def newHead_def game_last_def game0_def)
  have 6: "map_option food (update insertion_sort 7 True game_last) = Some \<lparr>pos_x = 0, pos_y = 0\<rparr>"
    unfolding game_last_tick by (simp add: game_last_moved)
  from game_last_length 1 2 game_last_no_collision 3 4 5 6 show ?thesis by (intro conjI)
qed

text \<open>From \<open>game_fed\<close> the first tick eats and the food moves; from \<open>game_last\<close> it eats and
  the food stays; from \<open>game0\<close> it does not eat; two plain ticks after \<open>reset 0 game0\<close> leave
  three segments.\<close>

theorem update_growth_witness:
  "moveSnake (game_fed\<lparr>currentDirection := nextDirection game_fed\<rparr>)
     = Some (moved game_fed \<lparr>pos_x = 15, pos_y = 10\<rparr>)
   \<and> checkCollision (moved game_fed \<lparr>pos_x = 15, pos_y = 10\<rparr>) = Some False
   \<and> front (snake (moved game_fed \<lparr>pos_x = 15, pos_y = 10\<rparr>)) = Some \<lparr>pos_x = 15, pos_y = 9\<rparr>
   \<and> food game_fed = \<lparr>pos_x = 15, pos_y = 9\<rparr>
   \<and> (\<exists>g'. update insertion_sort 5 True game_fed = Some g'
          \<and> snake g' = \<lparr>pos_x = 15, pos_y = 9\<rparr> # snake game_fed
          \<and> length (snake g') = 4 \<and> score g' = 10)
   \<and> emptyPositions (moved game_fed \<lparr>pos_x = 15, pos_y = 10\<rparr>) \<noteq> []
   \<and> (\<exists>g'. update insertion_sort 5 True game_fed = Some g' \<and> food g' \<noteq> food game_fed)
   \<and> emptyPositions (moved game_last \<lparr>pos_x = 0, pos_y = 1\<rparr>) = []
   \<and> (\<exists>g'. update insertion_sort 5 True game_last = Some g' \<and> food g' = food game_last
          \<and> length (snake g') = 600)
   \<and> checkCollision (moved game0 \<lparr>pos_x = 15, pos_y = 10\<rparr>) = Some False
   \<and> food game0 = \<lparr>pos_x = 15, pos_y = 8\<rparr>
   \<and> (\<exists>g'. update insertion_sort 5 True game0 = Some g'
          \<and> snake g' = [\<lparr>pos_x = 15, pos_y = 9\<rparr>, \<lparr>pos_x = 15, pos_y = 10\<rparr>, \<lparr>pos_x = 15, pos_y = 11\<rparr>]
          \<and> length (snake g') = 3 \<and> score g' = 0)
   \<and> (\<exists>gN. plain_ticks insertion_sort 2 (reset 0 game0) gN \<and> length (snake gN) = 3)"
proof -
  have m1: "moveSnake (game_fed\<lparr>currentDirection := nextDirection game_fed\<rparr>)
      = Some (moved game_fed \<lparr>pos_x = 15, pos_y = 10\<rparr>)"
    by (rule moveSnake_moved) (simp add: game_fed_def game0_def)
  have c1: "checkCollision (moved game_fed \<lparr>pos_x = 15, pos_y = 10\<rparr>) = Some False"
    by (simp add: checkCollision_def front_def moved_def newHead_def hits_body_iff hits_any_iff
        game_fed_def game0_def GRID_WIDTH_def GRID_HEIGHT_def)
  have f1: "front (snake (moved game_fed \<lparr>pos_x = 15, pos_y = 10\<rparr>)) = Some \<lparr>pos_x = 15, pos_y = 9\<rparr>"
    by (simp add: front_def moved_def newHead_def game_fed_def game0_def)
  have fd1: "food game_fed = \<lparr>pos_x = 15, pos_y = 9\<rparr>" by (simp add: game_fed_def)
  have e1: "\<exists>g'. update insertion_sort 5 True game_fed = Some g'
          \<and> snake g' = \<lparr>pos_x = 15, pos_y = 9\<rparr> # snake game_fed
          \<and> length (snake g') = 4 \<and> score g' = 10"
  proof -
    from update_growth [OF m1 c1 f1, of insertion_sort 5] fd1
    obtain g' where g': "update insertion_sort 5 True game_fed = Some g'"
      "snake g' = \<lparr>pos_x = 15, pos_y = 9\<rparr> # snake game_fed"
      "length (snake g') = length (snake game_fed) + 1" "score g' = score game_fed + 10"
      by metis
    have "length (snake game_fed) = 3" "score game_fed = 0"
      by (simp_all add: game_fed_def game0_def)
    with g' show ?thesis by simp
  qed
  have ne1: "emptyPositions (moved game_fed \<lparr>pos_x = 15, pos_y = 10\<rparr>) \<noteq> []"
    using emptyPositions_first [of "moved game_fed \<lparr>pos_x = 15, pos_y = 10\<rparr>"]
    by (auto simp: moved_def newHead_def game_fed_def game0_def)
  have n1: "\<exists>g'. update insertion_sort 5 True game_fed = Some g' \<and> food g' \<noteq> food game_fed"
    using update_growth [OF m1 c1 f1, of insertion_sort 5] fd1 ne1 by metis
  have fl: "\<exists>g'. update insertion_sort 5 True game_last = Some g' \<and> food g' = food game_last
          \<and> length (snake g') = 600"
  proof -
    have hf: "\<lparr>pos_x = 0, pos_y = 0\<rparr> = food game_last" by (simp add: game_last_def)
    from update_growth [OF game_last_move game_last_no_collision game_last_head, of insertion_sort 5]
      hf game_last_full
    obtain g' where g': "update insertion_sort 5 True game_last = Some g'" "food g' = food game_last"
      by metis
    from update_growth [OF game_last_move game_last_no_collision game_last_head, of insertion_sort 5] hf
    obtain g'' where g'': "update insertion_sort 5 True game_last = Some g''"
      "length (snake g'') = length (snake game_last) + 1"
      by metis
    from g' g'' have "length (snake g') = 600" by (simp add: game_last_length)
    with g' show ?thesis by blast
  qed
  have m0: "moveSnake (game0\<lparr>currentDirection := nextDirection game0\<rparr>)
      = Some (moved game0 \<lparr>pos_x = 15, pos_y = 10\<rparr>)"
    by (rule moveSnake_moved) (simp add: game0_def)
  have c0: "checkCollision (moved game0 \<lparr>pos_x = 15, pos_y = 10\<rparr>) = Some False"
    by (simp add: checkCollision_def front_def moved_def newHead_def hits_body_iff hits_any_iff
        game0_def GRID_WIDTH_def GRID_HEIGHT_def)
  have f0: "front (snake (moved game0 \<lparr>pos_x = 15, pos_y = 10\<rparr>)) = Some \<lparr>pos_x = 15, pos_y = 9\<rparr>"
    by (simp add: front_def moved_def newHead_def game0_def)
  have fd0: "food game0 = \<lparr>pos_x = 15, pos_y = 8\<rparr>" by (simp add: game0_def)
  have e0: "\<exists>g'. update insertion_sort 5 True game0 = Some g'
          \<and> snake g' = [\<lparr>pos_x = 15, pos_y = 9\<rparr>, \<lparr>pos_x = 15, pos_y = 10\<rparr>, \<lparr>pos_x = 15, pos_y = 11\<rparr>]
          \<and> length (snake g') = 3 \<and> score g' = 0"
  proof -
    have ne: "\<lparr>pos_x = 15, pos_y = 9\<rparr> \<noteq> food game0" by (simp add: fd0)
    from update_growth [OF m0 c0 f0, of insertion_sort 5] ne
    obtain g' where g': "update insertion_sort 5 True game0 = Some g'"
      "snake g' = butlast (\<lparr>pos_x = 15, pos_y = 9\<rparr> # snake game0)"
      "length (snake g') = length (snake game0)" "score g' = score game0"
      by metis
    have "snake game0 = [\<lparr>pos_x = 15, pos_y = 10\<rparr>, \<lparr>pos_x = 15, pos_y = 11\<rparr>, \<lparr>pos_x = 15, pos_y = 12\<rparr>]"
      "score game0 = 0"
      by (simp_all add: game0_def)
    with g' show ?thesis by simp
  qed
  define s0 where "s0 = reset 0 game0"
  define s1 where "s1 = (moved s0 \<lparr>pos_x = 15, pos_y = 10\<rparr>)
      \<lparr>snake := butlast (newHead (nextDirection s0) \<lparr>pos_x = 15, pos_y = 10\<rparr> # snake s0)\<rparr>"
  define s2 where "s2 = (moved s1 \<lparr>pos_x = 15, pos_y = 9\<rparr>)
      \<lparr>snake := butlast (newHead (nextDirection s1) \<lparr>pos_x = 15, pos_y = 9\<rparr> # snake s1)\<rparr>"
  have s0: "s0 = game0\<lparr>food := \<lparr>pos_x = 0, pos_y = 0\<rparr>\<rparr>"
    by (simp add: s0_def reset_game0)
  have t1: "plain_ticks insertion_sort (Suc 0) s0 s1"
    unfolding s1_def
    by (rule plain_tick_step [OF no_frame])
       (simp_all add: s0 game0_def checkCollision_def front_def moved_def newHead_def
          hits_body_iff hits_any_iff GRID_WIDTH_def GRID_HEIGHT_def)
  have t2: "plain_ticks insertion_sort (Suc (Suc 0)) s0 s2"
    unfolding s2_def
    by (rule plain_tick_step [OF t1])
       (simp_all add: s1_def s0 game0_def checkCollision_def front_def moved_def newHead_def
          hits_body_iff hits_any_iff GRID_WIDTH_def GRID_HEIGHT_def)
  then have t2': "plain_ticks insertion_sort 2 (reset 0 game0) s2"
    by (simp add: s0_def numeral_2_eq_2)
  have "length (snake s2) = 3"
    using update_growth [OF m0 c0 f0, where srt = insertion_sort and n = 2 and seed = 0 and gi = game0 and gN = s2] t2'
    by blast
  with t2' have run: "\<exists>gN. plain_ticks insertion_sort 2 (reset 0 game0) gN \<and> length (snake gN) = 3"
    by blast
  from m1 c1 f1 fd1 e1 ne1 n1 game_last_full fl c0 fd0 e0 run show ?thesis by blast
qed

section \<open>Direction buffering\<close>

lemma update_commits:
  "snake g \<noteq> [] \<Longrightarrow> map_option currentDirection (update srt r True g) = Some (nextDirection g)"
proof -
  assume "snake g \<noteq> []"
  then obtain head body where sn: "snake g = head # body" by (cases "snake g") auto
  show ?thesis
    by (simp add: update_tick [OF sn]) (simp add: moved_def)
qed

lemma update_None_iff: "update srt r True g = None \<longleftrightarrow> snake g = []"
proof (cases "snake g")
  case Nil
  then show ?thesis by (simp add: update_def moveSnake_def front_def)
next
  case (Cons head body)
  then show ?thesis by (simp add: update_tick [OF Cons])
qed

lemma handleGameInput_presses:
  assumes "presses IsKeyPressed d"
  shows "nextDirection (handleGameInput srt IsKeyPressed g) =
           (if d = opposite (currentDirection g) then nextDirection g else d)"
proof -
  have np: "\<not> IsKeyPressed KEY_P" "\<not> IsKeyPressed KEY_SPACE" "\<not> IsKeyPressed KEY_Q" "\<not> IsKeyPressed KEY_ESCAPE"
    using assms by (auto simp: presses_def keys_of_def split: Direction.splits)
  show ?thesis
  proof (cases d)
    case UP
    with assms have "IsKeyPressed KEY_W \<or> IsKeyPressed KEY_UP"
      "\<not> IsKeyPressed KEY_S" "\<not> IsKeyPressed KEY_DOWN" "\<not> IsKeyPressed KEY_A" "\<not> IsKeyPressed KEY_LEFT"
      "\<not> IsKeyPressed KEY_D" "\<not> IsKeyPressed KEY_RIGHT"
      by (auto simp: presses_def keys_of_def)
    with np UP show ?thesis
      by (cases "currentDirection g") (auto simp: handleGameInput_def opposite_def)
  next
    case DOWN
    with assms have "IsKeyPressed KEY_S \<or> IsKeyPressed KEY_DOWN"
      "\<not> IsKeyPressed KEY_W" "\<not> IsKeyPressed KEY_UP" "\<not> IsKeyPressed KEY_A" "\<not> IsKeyPressed KEY_LEFT"
      "\<not> IsKeyPressed KEY_D" "\<not> IsKeyPressed KEY_RIGHT"
      by (auto simp: presses_def keys_of_def)
    with np DOWN show ?thesis
      by (cases "currentDirection g") (auto simp: handleGameInput_def opposite_def)
  next
    case LEFT
    with assms have "IsKeyPressed KEY_A \<or> IsKeyPressed KEY_LEFT"
      "\<not> IsKeyPressed KEY_W" "\<not> IsKeyPressed KEY_UP" "\<not> IsKeyPressed KEY_S" "\<not> IsKeyPressed KEY_DOWN"
      "\<not> IsKeyPressed KEY_D" "\<not> IsKeyPressed KEY_RIGHT"
      by (auto simp: presses_def keys_of_def)
    with np LEFT show ?thesis
      by (cases "currentDirection g") (auto simp: handleGameInput_def opposite_def)
  next
    case RIGHT
    with assms have "IsKeyPressed KEY_D \<or> IsKeyPressed KEY_RIGHT"
      "\<not> IsKeyPressed KEY_W" "\<not> IsKeyPressed KEY_UP" "\<not> IsKeyPressed KEY_S" "\<not> IsKeyPressed KEY_DOWN"
      "\<not> IsKeyPressed KEY_A" "\<not> IsKeyPressed KEY_LEFT"
      by (auto simp: presses_def keys_of_def)
    with np RIGHT show ?thesis
      by (cases "currentDirection g") (auto simp: handleGameInput_def opposite_def)
  qed
qed

lemma handleGameInput_current:
  "currentDirection (handleGameInput srt Keys g) = currentDirection g"
  by simp

lemma handleGameInput_buffer:
  "nextDirection (handleGameInput srt Keys g) = nextDirection g
   \<or> nextDirection (handleGameInput srt Keys g) \<noteq> opposite (currentDirection g)"
  by (cases "currentDirection g") (auto simp: handleGameInput_def opposite_def Let_def)

lemma handleGameInput_opposite_keys:
  "nextDirection (handleGameInput srt Keys g)
     = nextDirection (handleGameInput srt (\<lambda>k. Keys k \<and> k \<notin> keys_of (opposite (currentDirection g))) g)"
  by (cases "currentDirection g") (auto simp: handleGameInput_def opposite_def keys_of_def Let_def)

text \<open>
  C3 (as amended). The buffered direction is committed to the current direction only by a
  tick: input handling never changes the current direction, an update that is not due
  changes nothing, and a tick makes the current direction the buffered one. In every
  frame, whatever keys are down together, input handling never writes the direction
  opposite to the current one into the buffer, and the keys of the opposite direction are
  without effect on it; so a buffer that is not opposite to the current direction stays
  so, and the tick never reverses the snake. An input of direction \<open>d\<close> alone overwrites
  the buffer exactly when \<open>d\<close> is not opposite to the current direction, and then the tick
  makes the current direction \<open>d\<close>. When \<open>d\<close> is opposite to the current direction the
  buffer is left as it was, and the tick commits what was buffered before: the current
  direction is unchanged when no other turn was pending (buffer = current direction).
\<close>

theorem direction_buffering:
  "currentDirection (handleGameInput srt Keys g) = currentDirection g
   \<and> update srt r False g = Some g
   \<and> (snake g \<noteq> [] \<longrightarrow>
        map_option currentDirection (update srt r True g) = Some (nextDirection g))
   \<and> (nextDirection (handleGameInput srt Keys g) = nextDirection g
        \<or> nextDirection (handleGameInput srt Keys g) \<noteq> opposite (currentDirection g))
   \<and> nextDirection (handleGameInput srt Keys g)
        = nextDirection (handleGameInput srt (\<lambda>k. Keys k \<and> k \<notin> keys_of (opposite (currentDirection g))) g)
   \<and> (nextDirection g \<noteq> opposite (currentDirection g) \<longrightarrow>
        nextDirection (handleGameInput srt Keys g) \<noteq> opposite (currentDirection g))
   \<and> (nextDirection g \<noteq> opposite (currentDirection g) \<and> snake g \<noteq> [] \<longrightarrow>
        map_option currentDirection (update srt r True (handleGameInput srt Keys g))
          \<noteq> Some (opposite (currentDirection g)))
   \<and> (presses IsKeyPressed d \<and> snake g \<noteq> [] \<longrightarrow>
        (d \<noteq> opposite (currentDirection g) \<longrightarrow>
            nextDirection (handleGameInput srt IsKeyPressed g) = d
            \<and> map_option currentDirection (update srt r True (handleGameInput srt IsKeyPressed g)) = Some d)
        \<and> (d = opposite (currentDirection g) \<longrightarrow>
            nextDirection (handleGameInput srt IsKeyPressed g) = nextDirection g
            \<and> map_option currentDirection (update srt r True (handleGameInput srt IsKeyPressed g))
                = Some (nextDirection g))
        \<and> (d = opposite (currentDirection g) \<and> nextDirection g = currentDirection g \<longrightarrow>
            map_option currentDirection (update srt r True (handleGameInput srt IsKeyPressed g))
                = Some (currentDirection g)))"
proof -
  have 1: "currentDirection (handleGameInput srt Keys g) = currentDirection g"
    by (rule handleGameInput_current)
  have 2: "update srt r False g = Some g" by (simp add: update_def)
  have 3: "snake g \<noteq> [] \<longrightarrow>
        map_option currentDirection (update srt r True g) = Some (nextDirection g)"
    using update_commits [of g srt r] by blast
  note 4 = handleGameInput_buffer [of srt Keys g]
  note 5 = handleGameInput_opposite_keys [of srt Keys g]
  have 6: "nextDirection g \<noteq> opposite (currentDirection g) \<longrightarrow>
        nextDirection (handleGameInput srt Keys g) \<noteq> opposite (currentDirection g)"
    using 4 by auto
  have 7: "nextDirection g \<noteq> opposite (currentDirection g) \<and> snake g \<noteq> [] \<longrightarrow>
        map_option currentDirection (update srt r True (handleGameInput srt Keys g))
          \<noteq> Some (opposite (currentDirection g))"
  proof
    assume a: "nextDirection g \<noteq> opposite (currentDirection g) \<and> snake g \<noteq> []"
    then have sn: "snake (handleGameInput srt Keys g) \<noteq> []" by simp
    from a 6 show "map_option currentDirection (update srt r True (handleGameInput srt Keys g))
          \<noteq> Some (opposite (currentDirection g))"
      by (simp add: update_commits [OF sn])
  qed
  have 8: "(d \<noteq> opposite (currentDirection g) \<longrightarrow>
            nextDirection (handleGameInput srt IsKeyPressed g) = d
            \<and> map_option currentDirection (update srt r True (handleGameInput srt IsKeyPressed g)) = Some d)
        \<and> (d = opposite (currentDirection g) \<longrightarrow>
            nextDirection (handleGameInput srt IsKeyPressed g) = nextDirection g
            \<and> map_option currentDirection (update srt r True (handleGameInput srt IsKeyPressed g))
                = Some (nextDirection g))
        \<and> (d = opposite (currentDirection g) \<and> nextDirection g = currentDirection g \<longrightarrow>
            map_option currentDirection (update srt r True (handleGameInput srt IsKeyPressed g))
                = Some (currentDirection g))"
    if pr: "presses IsKeyPressed d" and ne: "snake g \<noteq> []"
  proof -
    have sn: "snake (handleGameInput srt IsKeyPressed g) \<noteq> []" using ne by simp
    show ?thesis
      using update_commits [OF sn, of srt r] handleGameInput_presses [OF pr, of srt g]
      by (auto split: if_splits)
  qed
  from 1 2 3 4 5 6 7 8 show ?thesis by blast
qed

text \<open>
  The claim as first stated ("for \<open>d\<close> opposite to the current direction, ticking leaves
  the current direction unchanged") fails when a turn is pending: from \<open>game0\<close> (heading
  UP) the key A buffers LEFT; the key S (DOWN, opposite to UP) is then discarded, and the
  tick turns the snake LEFT.
\<close>

theorem direction_buffering_counterexample:
  "currentDirection game_turning = UP
   \<and> opposite UP = DOWN
   \<and> presses press_S DOWN
   \<and> map_option currentDirection
        (update insertion_sort 0 True (handleGameInput insertion_sort press_S game_turning)) = Some LEFT"
proof -
  have a: "currentDirection game_turning = UP" "nextDirection game_turning = LEFT"
    "snake game_turning \<noteq> []"
    by (simp_all add: game_turning_def handleGameInput_def press_A_def game0_def)
  have p: "presses press_S DOWN" by (simp add: presses_def press_S_def keys_of_def)
  have sn: "snake (handleGameInput insertion_sort press_S game_turning) \<noteq> []" using a by simp
  show ?thesis
    using a p update_commits [OF sn, of insertion_sort 0]
      handleGameInput_presses [OF p, of insertion_sort game_turning]
    by (simp add: opposite_def)
qed

text \<open>
  From \<open>game0\<close> (heading UP, nothing pending): A alone turns the snake LEFT at the tick; S
  alone is discarded and the tick keeps UP; S and A down together buffer LEFT, as A alone
  does; S and W together leave the buffer at UP.
\<close>

theorem direction_buffering_witness:
  "presses press_A LEFT \<and> snake game0 \<noteq> [] \<and> LEFT \<noteq> opposite (currentDirection game0)
   \<and> map_option currentDirection
        (update insertion_sort 0 True (handleGameInput insertion_sort press_A game0)) = Some LEFT
   \<and> presses press_S DOWN \<and> DOWN = opposite (currentDirection game0)
   \<and> nextDirection game0 = currentDirection game0
   \<and> map_option currentDirection
        (update insertion_sort 0 True (handleGameInput insertion_sort press_S game0)) = Some UP
   \<and> nextDirection (handleGameInput insertion_sort press_S_A game0) = LEFT
   \<and> nextDirection (handleGameInput insertion_sort press_S_A game0) \<noteq> opposite (currentDirection game0)
   \<and> map_option currentDirection
        (update insertion_sort 0 True (handleGameInput insertion_sort press_S_A game0)) \<noteq> Some DOWN
   \<and> map_option currentDirection (update insertion_sort 0 True game_turning) = Some LEFT"
proof -
  have pa: "presses press_A LEFT" by (simp add: presses_def press_A_def keys_of_def)
  have ps: "presses press_S DOWN" by (simp add: presses_def press_S_def keys_of_def)
  have g: "snake game0 \<noteq> []" "currentDirection game0 = UP" "nextDirection game0 = UP"
    by (simp_all add: game0_def)
  have t: "snake game_turning \<noteq> []" "nextDirection game_turning = LEFT"
    by (simp_all add: game_turning_def handleGameInput_def press_A_def game0_def)
  have o: "LEFT \<noteq> opposite UP" "DOWN = opposite UP" "UP \<noteq> opposite UP" by (simp_all add: opposite_def)
  have sa: "nextDirection (handleGameInput insertion_sort press_S_A game0) = LEFT"
    by (simp add: handleGameInput_def press_S_A_def game0_def)
  note a = direction_buffering [where srt = insertion_sort and r = 0 and g = game0
      and Keys = press_S_A and IsKeyPressed = press_A and d = LEFT]
  note b = direction_buffering [where srt = insertion_sort and r = 0 and g = game0
      and Keys = press_S_A and IsKeyPressed = press_S and d = DOWN]
  note c = direction_buffering [where srt = insertion_sort and r = 0 and g = game_turning
      and Keys = press_S_A and IsKeyPressed = press_S and d = DOWN]
  from a have a8: "presses press_A LEFT \<and> snake game0 \<noteq> [] \<longrightarrow>
      (LEFT \<noteq> opposite (currentDirection game0) \<longrightarrow>
         map_option currentDirection
           (update insertion_sort 0 True (handleGameInput insertion_sort press_A game0)) = Some LEFT)"
    by blast
  from b have b8: "presses press_S DOWN \<and> snake game0 \<noteq> [] \<longrightarrow>
      (DOWN = opposite (currentDirection game0) \<and> nextDirection game0 = currentDirection game0 \<longrightarrow>
         map_option currentDirection
           (update insertion_sort 0 True (handleGameInput insertion_sort press_S game0))
             = Some (currentDirection game0))"
    by blast
  from a have a6: "nextDirection game0 \<noteq> opposite (currentDirection game0) \<longrightarrow>
      nextDirection (handleGameInput insertion_sort press_S_A game0) \<noteq> opposite (currentDirection game0)"
    by blast
  from a have a7: "nextDirection game0 \<noteq> opposite (currentDirection game0) \<and> snake game0 \<noteq> [] \<longrightarrow>
      map_option currentDirection
        (update insertion_sort 0 True (handleGameInput insertion_sort press_S_A game0))
          \<noteq> Some (opposite (currentDirection game0))"
    by blast
  from c have c3: "snake game_turning \<noteq> [] \<longrightarrow>
      map_option currentDirection (update insertion_sort 0 True game_turning)
        = Some (nextDirection game_turning)"
    by blast
  have 1: "map_option currentDirection
        (update insertion_sort 0 True (handleGameInput insertion_sort press_A game0)) = Some LEFT"
    using a8 pa g o by simp
  have 2: "map_option currentDirection
        (update insertion_sort 0 True (handleGameInput insertion_sort press_S game0)) = Some UP"
    using b8 ps g o by simp
  have 3: "nextDirection (handleGameInput insertion_sort press_S_A game0) \<noteq> opposite (currentDirection game0)"
    using a6 g o by simp
  have 4: "map_option currentDirection
        (update insertion_sort 0 True (handleGameInput insertion_sort press_S_A game0)) \<noteq> Some DOWN"
    using a7 g o by simp
  have 5: "map_option currentDirection (update insertion_sort 0 True game_turning) = Some LEFT"
    using c3 t by simp
  from pa ps g o sa 1 2 3 4 5 show ?thesis by simp
qed

section \<open>Loading the obstacles\<close>

lemma loadObstacles_loop_eq:
  "loadObstacles_loop ps obs = obs @ take (100 - length obs) (filter in_grid (map to_pos ps))"
proof (induction ps arbitrary: obs)
  case Nil
  show ?case by simp
next
  case (Cons p ps)
  obtain x y where p: "p = (x, y)" by (cases p)
  show ?case
  proof (cases "length obs < 100")
    case False
    then show ?thesis by (simp add: p MAX_OBSTACLES_def)
  next
    case True
    then have s: "100 - length obs = Suc (100 - length obs - 1)" by simp
    have step: "loadObstacles_loop (p # ps) obs =
        loadObstacles_loop ps (if in_grid (to_pos p) then obs @ [to_pos p] else obs)"
      using True
      by (simp add: p MAX_OBSTACLES_def GRID_WIDTH_def GRID_HEIGHT_def in_grid_def to_pos_def)
    show ?thesis
    proof (cases "in_grid (to_pos p)")
      case True
      then show ?thesis
        unfolding step using Cons.IH [of "obs @ [to_pos p]"] \<open>length obs < 100\<close>
        by (subst s) simp
    next
      case False
      then show ?thesis
        unfolding step using Cons.IH [of obs] by simp
    qed
  qed
qed

text \<open>
  C4 (as amended). Loading the obstacles keeps the first 100 in-bounds pairs among the
  pairs read, where reading ends at the first pair that cannot be extracted (it is not
  skipped: nothing after it is read); out-of-bounds pairs are skipped; every obstacle
  retained lies in [0, 30) x [0, 20) and at most 100 are held. A file that does not open
  gives no obstacles.
\<close>

theorem loadObstacles_stops:
  "obstacles (loadObstacles fname g) =
     (case files g fname of
        None \<Rightarrow> []
      | Some content \<Rightarrow> take 100 (filter in_grid (map to_pos (xy_records content))))
   \<and> (read_xy s = None \<longrightarrow> xy_records s = [])
   \<and> (read_xy s = Some (p, rest) \<longrightarrow> xy_records s = p # xy_records rest)
   \<and> (\<forall>ob \<in> set (obstacles (loadObstacles fname g)).
         0 \<le> pos_x ob \<and> pos_x ob < 30 \<and> 0 \<le> pos_y ob \<and> pos_y ob < 20)
   \<and> length (obstacles (loadObstacles fname g)) \<le> 100"
proof -
  have eq: "obstacles (loadObstacles fname g) =
     (case files g fname of
        None \<Rightarrow> []
      | Some content \<Rightarrow> take 100 (filter in_grid (map to_pos (xy_records content))))"
    by (simp add: loadObstacles_def loadObstacles_loop_eq split: option.splits)
  have "\<forall>ob \<in> set (obstacles (loadObstacles fname g)). in_grid ob"
    unfolding eq by (auto split: option.splits dest: in_set_takeD)
  then have inb: "\<forall>ob \<in> set (obstacles (loadObstacles fname g)).
         0 \<le> pos_x ob \<and> pos_x ob < 30 \<and> 0 \<le> pos_y ob \<and> pos_y ob < 20"
    by (simp add: in_grid_def)
  have len: "length (obstacles (loadObstacles fname g)) \<le> 100"
    unfolding eq by (simp split: option.splits)
  have r1: "read_xy s = None \<longrightarrow> xy_records s = []"
    by (simp add: xy_records.simps [of s])
  have r2: "read_xy s = Some (p, rest) \<longrightarrow> xy_records s = p # xy_records rest"
    by (simp add: xy_records.simps [of s])
  from eq r1 r2 inb len show ?thesis by blast
qed

lemma xy_records_ok: "xy_records obstacles_txt_ok = [(3, 4), (50, 2), (7, 8)]"
  by code_simp

lemma xy_records_bad: "xy_records obstacles_txt_bad = [(1, 1)]"
  by code_simp

lemma read_xy_bad: "read_xy (CHR 0x0A # ''x 5'' @ [CHR 0x0A] @ ''2 2'' @ [CHR 0x0A]) = None"
  by code_simp

text \<open>
  The claim as first stated ("malformed entries are skipped and loading continues with
  subsequent records") fails: of the lines \<open>1 1\<close>, \<open>x 5\<close>, \<open>2 2\<close> only the first is
  loaded.
\<close>

theorem loadObstacles_stops_counterexample:
  "obstacles (loadObstacles ''obstacles.txt'' (with_file ''obstacles.txt'' obstacles_txt_bad game0))
     = [\<lparr>pos_x = 1, pos_y = 1\<rparr>]
   \<and> \<lparr>pos_x = 2, pos_y = 2\<rparr> \<notin>
       set (obstacles (loadObstacles ''obstacles.txt'' (with_file ''obstacles.txt'' obstacles_txt_bad game0)))"
  by (simp add: loadObstacles_def with_file_def xy_records_bad MAX_OBSTACLES_def
      GRID_WIDTH_def GRID_HEIGHT_def)

theorem loadObstacles_stops_witness:
  "obstacles (loadObstacles ''obstacles.txt'' (with_file ''obstacles.txt'' obstacles_txt_ok game0))
     = [\<lparr>pos_x = 3, pos_y = 4\<rparr>, \<lparr>pos_x = 7, pos_y = 8\<rparr>]
   \<and> read_xy (CHR 0x0A # ''x 5'' @ [CHR 0x0A] @ ''2 2'' @ [CHR 0x0A]) = None
   \<and> xy_records (CHR 0x0A # ''x 5'' @ [CHR 0x0A] @ ''2 2'' @ [CHR 0x0A]) = []
   \<and> obstacles (loadObstacles ''obstacles.txt'' game0) = []"
proof -
  have f: "files (with_file ''obstacles.txt'' obstacles_txt_ok game0) ''obstacles.txt'' = Some obstacles_txt_ok"
    by (simp add: with_file_def)
  have n: "files game0 ''obstacles.txt'' = None" by (simp add: game0_def no_files_def)
  show ?thesis
    using loadObstacles_stops [of "''obstacles.txt''" "with_file ''obstacles.txt'' obstacles_txt_ok game0"
        "CHR 0x0A # ''x 5'' @ [CHR 0x0A] @ ''2 2'' @ [CHR 0x0A]"]
      loadObstacles_stops [of "''obstacles.txt''" game0] read_xy_bad
    by (simp add: f n xy_records_ok in_grid_def to_pos_def)
qed

section \<open>Loading the best scores\<close>

lemma Max_insert_max:
  fixes a b :: int
  shows "finite S \<Longrightarrow> Max (insert (max a b) S) = Max (insert a (insert b S))"
  by (cases "S = {}") (auto simp: max.assoc)

lemma finite_scores_of: "finite {s. (n, s) \<in> set ps}"
proof -
  have "{s. (n, s) \<in> set ps} \<subseteq> snd ` set ps" by force
  then show ?thesis by (rule finite_subset) simp
qed

lemma loadHighestScores_loop_max:
  "playerName (loadHighestScores_loop ps g) = playerName g
   \<and> overallHighestScore (loadHighestScores_loop ps g)
       = Max (insert (overallHighestScore g) (snd ` set ps))
   \<and> personalBestScore (loadHighestScores_loop ps g)
       = Max (insert (personalBestScore g) {s. (playerName g, s) \<in> set ps})"
proof (induction ps arbitrary: g)
  case Nil
  show ?case by simp
next
  case (Cons p ps)
  obtain name sc where p: "p = (name, sc)" by (cases p)
  define g1 where "g1 = (if sc > overallHighestScore g then g\<lparr>overallHighestScore := sc\<rparr> else g)"
  define g2 where "g2 = (if name = playerName g1 \<and> sc > personalBestScore g1
                then g1\<lparr>personalBestScore := sc\<rparr> else g1)"
  have step: "loadHighestScores_loop (p # ps) g = loadHighestScores_loop ps g2"
    by (simp add: p g1_def g2_def Let_def)
  have n: "playerName g2 = playerName g" by (simp add: g1_def g2_def)
  have o: "overallHighestScore g2 = max (overallHighestScore g) sc"
    by (auto simp: g1_def g2_def)
  have b: "personalBestScore g2 =
      (if name = playerName g then max (personalBestScore g) sc else personalBestScore g)"
    by (auto simp: g1_def g2_def)
  have set_eq: "{s. (playerName g, s) \<in> set (p # ps)} =
      (if name = playerName g then insert sc {s. (playerName g, s) \<in> set ps}
       else {s. (playerName g, s) \<in> set ps})"
    by (auto simp: p)
  have "overallHighestScore (loadHighestScores_loop ps g2)
      = Max (insert (overallHighestScore g) (snd ` set (p # ps)))"
    using Cons.IH [of g2] by (simp add: o p Max_insert_max)
  moreover have "personalBestScore (loadHighestScores_loop ps g2)
      = Max (insert (personalBestScore g) {s. (playerName g, s) \<in> set (p # ps)})"
  proof -
    have "personalBestScore (loadHighestScores_loop ps g2)
        = Max (insert (personalBestScore g2) {s. (playerName g, s) \<in> set ps})"
      using Cons.IH [of g2] by (simp only: n)
    also have "\<dots> = Max (insert (personalBestScore g) {s. (playerName g, s) \<in> set (p # ps)})"
    proof (cases "name = playerName g")
      case True
      then show ?thesis
        unfolding set_eq b
        using Max_insert_max [OF finite_scores_of [of "playerName g" ps], of "personalBestScore g" sc]
        by simp
    next
      case False
      then show ?thesis unfolding set_eq b by simp
    qed
    finally show ?thesis .
  qed
  moreover have "playerName (loadHighestScores_loop ps g2) = playerName g"
    using Cons.IH [of g2] by (simp add: n)
  ultimately show ?case unfolding step by blast
qed

lemma Max_insert_floor:
  fixes S :: "int set"
  assumes "finite S" and "\<exists>s \<in> S. 0 \<le> s"
  shows "Max (insert 0 S) = Max S"
proof -
  from assms obtain s where s: "s \<in> S" "0 \<le> s" by blast
  then have "S \<noteq> {}" by blast
  moreover have "0 \<le> Max S" using assms(1) s by (meson Max_ge order_trans)
  ultimately show ?thesis using assms(1) by (simp add: max_def)
qed

text \<open>
  C7 (as amended). loadHighestScores computes, over the pairs read from the best-score
  store, the maximum of 0 and the scores of the active player and, separately, the maximum
  of 0 and all scores: both values start from 0 and only a higher score replaces them.
  They are the plain maxima as soon as one of the scores concerned is not negative
  (duplicate names give the maximum per name), and a missing file gives 0 for both.
\<close>

theorem loadHighestScores_max:
  "personalBestScore (loadHighestScores g) = Max (insert 0 {s. (playerName g, s) \<in> set (stored_scores g)})
   \<and> overallHighestScore (loadHighestScores g) = Max (insert 0 (snd ` set (stored_scores g)))
   \<and> ((\<exists>s. (playerName g, s) \<in> set (stored_scores g) \<and> 0 \<le> s) \<longrightarrow>
        personalBestScore (loadHighestScores g) = Max {s. (playerName g, s) \<in> set (stored_scores g)})
   \<and> ((\<exists>p \<in> set (stored_scores g). 0 \<le> snd p) \<longrightarrow>
        overallHighestScore (loadHighestScores g) = Max (snd ` set (stored_scores g)))
   \<and> (files g ''user_scores.txt'' = None \<longrightarrow>
        personalBestScore (loadHighestScores g) = 0 \<and> overallHighestScore (loadHighestScores g) = 0)"
proof -
  define g0 where "g0 = g\<lparr>overallHighestScore := 0, personalBestScore := 0\<rparr>"
  have l: "loadHighestScores g = loadHighestScores_loop (stored_scores g) g0"
    by (simp add: loadHighestScores_def stored_scores_def g0_def Let_def split: option.splits)
  have pb: "personalBestScore (loadHighestScores g) = Max (insert 0 {s. (playerName g, s) \<in> set (stored_scores g)})"
    using loadHighestScores_loop_max [of "stored_scores g" g0] by (simp add: l) (simp add: g0_def)
  have ov: "overallHighestScore (loadHighestScores g) = Max (insert 0 (snd ` set (stored_scores g)))"
    using loadHighestScores_loop_max [of "stored_scores g" g0] by (simp add: l) (simp add: g0_def)
  have pb2: "(\<exists>s. (playerName g, s) \<in> set (stored_scores g) \<and> 0 \<le> s) \<longrightarrow>
        personalBestScore (loadHighestScores g) = Max {s. (playerName g, s) \<in> set (stored_scores g)}"
    unfolding pb using Max_insert_floor [OF finite_scores_of [of "playerName g" "stored_scores g"]]
    by blast
  have ov2: "(\<exists>p \<in> set (stored_scores g). 0 \<le> snd p) \<longrightarrow>
        overallHighestScore (loadHighestScores g) = Max (snd ` set (stored_scores g))"
    unfolding ov using Max_insert_floor [of "snd ` set (stored_scores g)"] by auto
  have none: "files g ''user_scores.txt'' = None \<longrightarrow>
        personalBestScore (loadHighestScores g) = 0 \<and> overallHighestScore (loadHighestScores g) = 0"
    by (simp add: pb ov stored_scores_def)
  from pb ov pb2 ov2 none show ?thesis by blast
qed

lemma stored_scores_game_x: "stored_scores game_x = [(''x'', 10), (''y'', 30), (''x'', 20)]"
proof -
  have "name_score_records user_scores_txt = [(''x'', 10), (''y'', 30), (''x'', 20)]"
    by code_simp
  then show ?thesis by (simp add: stored_scores_def game_x_def with_file_def)
qed

text \<open>
  The claim as first stated ("the maximum score recorded for the active player") fails
  when every score recorded for the player is negative: with the single pair (x, -5) in
  the store, both values are 0, not -5.
\<close>

theorem loadHighestScores_max_counterexample:
  "stored_scores game_neg = [(''x'', - 5)]
   \<and> playerName game_neg = ''x''
   \<and> Max (snd ` set (stored_scores game_neg)) = - 5
   \<and> personalBestScore (loadHighestScores game_neg) = 0
   \<and> overallHighestScore (loadHighestScores game_neg) = 0"
proof -
  have r: "name_score_records user_scores_txt_neg = [(''x'', - 5)]"
    by code_simp
  then have s: "stored_scores game_neg = [(''x'', - 5)]"
    by (simp add: stored_scores_def game_neg_def with_file_def)
  have n: "playerName game_neg = ''x''" by (simp add: game_neg_def with_file_def)
  have l: "loadHighestScores game_neg =
      loadHighestScores_loop [(''x'', - 5)] (game_neg\<lparr>overallHighestScore := 0, personalBestScore := 0\<rparr>)"
    by (simp add: loadHighestScores_def Let_def r) (simp add: game_neg_def with_file_def r)
  have "personalBestScore (loadHighestScores game_neg) = 0"
    "overallHighestScore (loadHighestScores game_neg) = 0"
    unfolding l by (simp_all add: Let_def)
  with s n show ?thesis by simp
qed

theorem loadHighestScores_max_witness:
  "stored_scores game_x = [(''x'', 10), (''y'', 30), (''x'', 20)]
   \<and> playerName game_x = ''x''
   \<and> personalBestScore (loadHighestScores game_x) = 20
   \<and> overallHighestScore (loadHighestScores game_x) = 30
   \<and> files game0 ''user_scores.txt'' = None
   \<and> personalBestScore (loadHighestScores game0) = 0
   \<and> overallHighestScore (loadHighestScores game0) = 0"
proof -
  have n: "playerName game_x = ''x''" by (simp add: game_x_def with_file_def)
  have s: "{s. s = 10 \<or> s = (20::int)} = {10, 20}"
    by auto
  have f: "files game0 ''user_scores.txt'' = None" by (simp add: game0_def no_files_def)
  show ?thesis
    using loadHighestScores_max [of game_x] loadHighestScores_max [of game0] f
    by (simp add: stored_scores_game_x n s)
qed

section \<open>Loading the leaderboard\<close>

lemma map_of_map_put: "map_of (map_put k v m) = (map_of m)(k \<mapsto> v)"
  by (induction m) (auto simp: fun_upd_twist)

lemma keys_map_put: "fst ` set (map_put k v m) = insert k (fst ` set m)"
proof -
  have "dom (map_of (map_put k v m)) = insert k (dom (map_of m))"
    by (simp add: map_of_map_put)
  then show ?thesis by (simp add: dom_map_of_conv_image_fst)
qed

lemma sorted_map_put:
  "sorted_wrt (<) (map fst m) \<Longrightarrow> sorted_wrt (<) (map fst (map_put k v m))"
proof (induction m)
  case Nil
  show ?case by simp
next
  case (Cons a m)
  obtain k' v' where a: "a = (k', v')" by (cases a)
  from Cons.prems have tl: "sorted_wrt (<) (map fst m)" and hd: "\<forall>x \<in> set (map fst m). k' < x"
    by (auto simp: a)
  show ?case
  proof (cases "k < k'")
    case True
    with Cons.prems show ?thesis by (auto simp: a)
  next
    case False
    show ?thesis
    proof (cases "k = k'")
      case True
      with Cons.prems show ?thesis by (auto simp: a)
    next
      case ne: False
      with False have "k' < k" by simp
      with hd have "\<forall>x \<in> set (map fst (map_put k v m)). k' < x"
        by (simp add: keys_map_put)
      with Cons.IH [OF tl] False ne show ?thesis by (simp add: a)
    qed
  qed
qed

lemma best_inv_step:
  assumes "best_inv m seen"
  shows "best_inv (case map_of m name of
                     None \<Rightarrow> map_put name sc m
                   | Some old \<Rightarrow> if sc > old then map_put name sc m else m)
                  (seen @ [(name, sc)])"
proof (cases "map_of m name")
  case None
  with assms have fresh: "\<forall>s. (name, s) \<notin> set seen"
    by (auto simp: best_inv_def)
  with assms None show ?thesis
    by (auto simp: best_inv_def sorted_map_put map_of_map_put)
next
  case (Some old)
  show ?thesis
  proof (cases "sc > old")
    case True
    with assms Some show ?thesis
      by (fastforce simp: best_inv_def sorted_map_put map_of_map_put)
  next
    case False
    with assms Some show ?thesis
      by (fastforce simp: best_inv_def)
  qed
qed

lemma bestScores_loop_inv:
  "best_inv m seen \<Longrightarrow> best_inv (bestScores_loop rs m) (seen @ rs)"
proof (induction rs arbitrary: m seen)
  case Nil
  then show ?case by simp
next
  case (Cons p rs)
  obtain name sc where p: "p = (name, sc)" by (cases p)
  from best_inv_step [OF Cons.prems, of name sc] Cons.IH [of _ "seen @ [(name, sc)]"]
  show ?case by (simp add: p)
qed

lemma best_inv_final: "best_inv (bestScores_loop rs []) rs"
  using bestScores_loop_inv [of "[]" "[]" rs] by (simp add: best_inv_def)

lemma sorted_keys_distinct: "sorted_wrt (<) (ks :: string list) \<Longrightarrow> distinct ks"
  by (induction ks) auto

lemma std_sort_set: "std_sort_spec srt \<Longrightarrow> set (srt xs) = set xs"
  by (metis std_sort_spec_def set_mset_mset)

lemma std_sort_length: "std_sort_spec srt \<Longrightarrow> length (srt xs) = length xs"
  by (metis std_sort_spec_def size_mset)

lemma std_sort_names:
  "std_sort_spec srt \<Longrightarrow> mset (map entry_name (srt xs)) = mset (map entry_name xs)"
  by (metis std_sort_spec_def mset_map)

lemma std_sort_distinct:
  "std_sort_spec srt \<Longrightarrow> distinct (map entry_name (srt xs)) = distinct (map entry_name xs)"
  using std_sort_names [of srt xs] by (metis mset_eq_imp_distinct_iff)

lemma std_sort_desc:
  "std_sort_spec srt \<Longrightarrow> sorted_wrt (\<lambda>a b. entry_score a \<ge> entry_score b) (srt xs)"
proof -
  assume "std_sort_spec srt"
  then have "sorted_wrt (\<lambda>a b. \<not> entry_less b a) (srt xs)"
    by (simp add: std_sort_spec_def)
  moreover have "(\<lambda>a b. \<not> entry_less b a) = (\<lambda>a b. entry_score a \<ge> entry_score b)"
    by (auto simp: entry_less_def fun_eq_iff)
  ultimately show ?thesis by simp
qed

lemma loadLeaderboard_eq:
  "std_sort_spec srt \<Longrightarrow>
   leaderboard (loadLeaderboard srt g) = srt (map to_entry (bestScores_loop (stored_leaderboard g) []))"
proof -
  assume s: "std_sort_spec srt"
  have e: "srt [] = []" using std_sort_length [OF s, of "[]"] by simp
  have t: "(\<lambda>pair. \<lparr>entry_name = fst pair, entry_score = snd pair\<rparr>) = to_entry"
    by (simp add: to_entry_def fun_eq_iff)
  show ?thesis
    by (simp add: loadLeaderboard_def stored_leaderboard_def e t split: option.splits)
qed

lemma leaderboard_changeState:
  "leaderboard (changeState srt LEADERBOARD g) = leaderboard (loadLeaderboard srt g)"
  by (simp add: changeState_def Let_def loadLeaderboard_def split: option.splits)

text \<open>
  C5 (as amended). Entering the LEADERBOARD state rebuilds the leaderboard from the
  persisted store alone: every entry carries a name of the file with the highest score
  the file gives for it, every name of the file has an entry, no name occurs twice, and
  the list is sorted by descending score. Nothing is truncated on load: the list has one
  entry per distinct name read.
\<close>

theorem changeState_LEADERBOARD:
  assumes "std_sort_spec srt"
  shows "currentState (changeState srt LEADERBOARD g) = LEADERBOARD
     \<and> leaderboard (changeState srt LEADERBOARD g)
         = srt (map to_entry (bestScores_loop (stored_leaderboard g) []))
     \<and> (\<forall>e \<in> set (leaderboard (changeState srt LEADERBOARD g)).
           (entry_name e, entry_score e) \<in> set (stored_leaderboard g)
           \<and> (\<forall>s. (entry_name e, s) \<in> set (stored_leaderboard g) \<longrightarrow> s \<le> entry_score e))
     \<and> (\<forall>p \<in> set (stored_leaderboard g).
           \<exists>e \<in> set (leaderboard (changeState srt LEADERBOARD g)). entry_name e = fst p)
     \<and> distinct (map entry_name (leaderboard (changeState srt LEADERBOARD g)))
     \<and> sorted_wrt (\<lambda>a b. entry_score a \<ge> entry_score b) (leaderboard (changeState srt LEADERBOARD g))
     \<and> length (leaderboard (changeState srt LEADERBOARD g)) = card (fst ` set (stored_leaderboard g))"
proof -
  define rs where "rs = stored_leaderboard g"
  define m where "m = bestScores_loop rs []"
  define lb where "lb = leaderboard (changeState srt LEADERBOARD g)"
  have lb: "lb = srt (map to_entry m)"
    by (simp add: lb_def m_def rs_def leaderboard_changeState loadLeaderboard_eq [OF assms])
  have inv: "best_inv m rs" unfolding m_def by (rule best_inv_final)
  then have dk: "distinct (map fst m)" by (simp add: best_inv_def sorted_keys_distinct)
  have set_lb: "set lb = to_entry ` set m" by (simp add: lb std_sort_set [OF assms])
  have names: "map (entry_name \<circ> to_entry) m = map fst m" by (simp add: to_entry_def comp_def)
  have 1: "\<forall>e \<in> set lb. (entry_name e, entry_score e) \<in> set rs
           \<and> (\<forall>s. (entry_name e, s) \<in> set rs \<longrightarrow> s \<le> entry_score e)"
  proof
    fix e assume "e \<in> set lb"
    then obtain n v where nv: "(n, v) \<in> set m" and e: "e = to_entry (n, v)"
      unfolding set_lb by auto
    from nv dk have "map_of m n = Some v" by simp
    with inv have "(n, v) \<in> set rs \<and> (\<forall>s. (n, s) \<in> set rs \<longrightarrow> s \<le> v)"
      by (simp add: best_inv_def)
    then show "(entry_name e, entry_score e) \<in> set rs
           \<and> (\<forall>s. (entry_name e, s) \<in> set rs \<longrightarrow> s \<le> entry_score e)"
      by (simp add: e to_entry_def)
  qed
  have 2: "\<forall>p \<in> set rs. \<exists>e \<in> set lb. entry_name e = fst p"
  proof
    fix p assume "p \<in> set rs"
    then have "(fst p, snd p) \<in> set rs" by simp
    with inv obtain v where "map_of m (fst p) = Some v"
      unfolding best_inv_def by blast
    then have "(fst p, v) \<in> set m" by (rule map_of_SomeD)
    then have "to_entry (fst p, v) \<in> set lb" unfolding set_lb by blast
    then show "\<exists>e \<in> set lb. entry_name e = fst p"
      by (rule rev_bexI) (simp add: to_entry_def)
  qed
  have 3: "distinct (map entry_name lb)"
    by (simp add: lb std_sort_distinct [OF assms] names dk)
  have 4: "sorted_wrt (\<lambda>a b. entry_score a \<ge> entry_score b) lb"
    unfolding lb by (rule std_sort_desc [OF assms])
  have keys: "fst ` set m = fst ` set rs"
  proof
    show "fst ` set m \<subseteq> fst ` set rs"
    proof
      fix n assume "n \<in> fst ` set m"
      then obtain v where "(n, v) \<in> set m" by auto
      with dk have "map_of m n = Some v" by simp
      with inv have "(n, v) \<in> set rs" by (simp add: best_inv_def)
      then show "n \<in> fst ` set rs" by force
    qed
    show "fst ` set rs \<subseteq> fst ` set m"
    proof
      fix n assume "n \<in> fst ` set rs"
      then obtain s where "(n, s) \<in> set rs" by auto
      with inv obtain v where "map_of m n = Some v" unfolding best_inv_def by blast
      then have "(n, v) \<in> set m" by (rule map_of_SomeD)
      then show "n \<in> fst ` set m" by force
    qed
  qed
  have "length lb = length (map fst m)" by (simp add: lb std_sort_length [OF assms])
  also have "\<dots> = card (set (map fst m))" using distinct_card [OF dk] by simp
  also have "\<dots> = card (fst ` set rs)" using keys by simp
  finally have 5: "length lb = card (fst ` set rs)" .
  have 0: "currentState (changeState srt LEADERBOARD g) = LEADERBOARD" by simp
  from 0 lb 1 2 3 4 5 show ?thesis
    unfolding lb_def m_def rs_def by blast
qed

lemma mset_insert_entry: "mset (insert_entry e xs) = add_mset e (mset xs)"
  by (induction xs) auto

lemma set_insert_entry: "set (insert_entry e xs) = insert e (set xs)"
  by (induction xs) auto

lemma sorted_insert_entry:
  "sorted_wrt (\<lambda>a b. \<not> entry_less b a) xs \<Longrightarrow> sorted_wrt (\<lambda>a b. \<not> entry_less b a) (insert_entry e xs)"
  by (induction xs) (auto simp: set_insert_entry entry_less_def)

lemma insertion_sort_spec: "std_sort_spec insertion_sort"
proof -
  have "mset (foldr insert_entry xs []) = mset xs
      \<and> sorted_wrt (\<lambda>a b. \<not> entry_less b a) (foldr insert_entry xs [])" for xs
    by (induction xs) (simp_all add: mset_insert_entry sorted_insert_entry)
  then show ?thesis by (simp add: std_sort_spec_def insertion_sort_def)
qed

text \<open>
  The claim as first stated ("after loadLeaderboard the leaderboard never holds more than
  10 entries") fails: a leaderboard file with eleven names loads eleven entries.
\<close>

theorem changeState_LEADERBOARD_counterexample:
  "length (leaderboard (changeState insertion_sort LEADERBOARD game_eleven)) = 11"
  by code_simp

theorem changeState_LEADERBOARD_witness:
  "std_sort_spec insertion_sort
   \<and> leaderboard (changeState insertion_sort LEADERBOARD game_dup)
       = [\<lparr>entry_name = ''a'', entry_score = 70\<rparr>, \<lparr>entry_name = ''b'', entry_score = 30\<rparr>]
   \<and> stored_leaderboard game_dup = [(''a'', 50), (''b'', 30), (''a'', 70), (''b'', 20)]
   \<and> card (fst ` set (stored_leaderboard game_dup)) = 2
   \<and> leaderboard (changeState insertion_sort LEADERBOARD game0) = []"
proof -
  have l: "leaderboard (changeState insertion_sort LEADERBOARD game_dup)
       = [\<lparr>entry_name = ''a'', entry_score = 70\<rparr>, \<lparr>entry_name = ''b'', entry_score = 30\<rparr>]"
    by code_simp
  have s: "stored_leaderboard game_dup = [(''a'', 50), (''b'', 30), (''a'', 70), (''b'', 20)]"
    by code_simp
  have n: "stored_leaderboard game0 = []"
    by (simp add: stored_leaderboard_def game0_def no_files_def)
  have c: "card (fst ` set (stored_leaderboard game_dup)) = 2"
    using changeState_LEADERBOARD [OF insertion_sort_spec, of game_dup] by (simp add: l)
  have e: "leaderboard (changeState insertion_sort LEADERBOARD game0) = []"
    using changeState_LEADERBOARD [OF insertion_sort_spec, of game0] by (simp add: n insertion_sort_def)
  from insertion_sort_spec l s c e show ?thesis by blast
qed

section \<open>Recording a score in the leaderboard\<close>

lemma entry_name_raise_to [simp]: "entry_name (raise_to p sc e) = entry_name e"
  by (simp add: raise_to_def)

lemma map_raise_to_other: "p \<notin> entry_name ` set lb \<Longrightarrow> map (raise_to p sc) lb = lb"
  by (induction lb) (auto simp: raise_to_def)

lemma upsert_loop_eq:
  "distinct (map entry_name lb) \<Longrightarrow>
   upsert_loop p sc lb = (p \<in> entry_name ` set lb, map (raise_to p sc) lb)"
proof (induction lb)
  case Nil
  show ?case by simp
next
  case (Cons e lb)
  show ?case
  proof (cases "entry_name e = p")
    case True
    with Cons.prems have "p \<notin> entry_name ` set lb" by auto
    then have "map (raise_to p sc) lb = lb" by (rule map_raise_to_other)
    moreover have "(if sc > entry_score e then e\<lparr>entry_score := sc\<rparr> else e) = raise_to p sc e"
      using True by (simp add: raise_to_def max_def)
    ultimately show ?thesis using True by simp
  next
    case False
    with Cons show ?thesis by (simp add: raise_to_def)
  qed
qed

lemma names_upsert:
  "map entry_name (upsert p sc lb) =
     (if p \<in> entry_name ` set lb then map entry_name lb else map entry_name lb @ [p])"
  by (simp add: upsert_def comp_def)

lemma distinct_upsert:
  "distinct (map entry_name lb) \<Longrightarrow> distinct (map entry_name (upsert p sc lb))"
  by (simp add: names_upsert)

lemma upsert_lower:
  assumes "distinct (map entry_name lb)" and "\<lparr>entry_name = p, entry_score = old\<rparr> \<in> set lb" and "sc \<le> old"
  shows "upsert p sc lb = lb"
proof -
  have "raise_to p sc e = e" if "e \<in> set lb" for e
  proof (cases "entry_name e = p")
    case True
    with assms(1,2) that have "e = \<lparr>entry_name = p, entry_score = old\<rparr>"
      by (auto simp: distinct_map inj_on_def)
    with assms(3) show ?thesis by (simp add: raise_to_def max_def)
  next
    case False
    then show ?thesis by (simp add: raise_to_def)
  qed
  then have "map (raise_to p sc) lb = lb" by (simp add: map_idI)
  moreover have "p \<in> entry_name ` set lb" using assms(2) by force
  ultimately show ?thesis by (simp add: upsert_def)
qed

lemma upsert_higher:
  assumes "distinct (map entry_name lb)" and "\<lparr>entry_name = p, entry_score = old\<rparr> \<in> set lb" and "old < sc"
  shows "set (upsert p sc lb) =
           insert \<lparr>entry_name = p, entry_score = sc\<rparr> (set lb - {\<lparr>entry_name = p, entry_score = old\<rparr>})"
proof -
  let ?e0 = "\<lparr>entry_name = p, entry_score = old\<rparr>"
  have other: "entry_name e \<noteq> p" if "e \<in> set lb - {?e0}" for e
    using assms(1,2) that by (auto simp: distinct_map inj_on_def)
  have r0: "raise_to p sc ?e0 = \<lparr>entry_name = p, entry_score = sc\<rparr>"
    using assms(3) by (simp add: raise_to_def max_def)
  have "set lb = insert ?e0 (set lb - {?e0})" using assms(2) by blast
  then have "raise_to p sc ` set lb = insert (raise_to p sc ?e0) (raise_to p sc ` (set lb - {?e0}))"
    by (metis image_insert)
  also have "raise_to p sc ` (set lb - {?e0}) = set lb - {?e0}"
    using other by (force simp: raise_to_def)
  finally have "raise_to p sc ` set lb = insert \<lparr>entry_name = p, entry_score = sc\<rparr> (set lb - {?e0})"
    by (simp add: r0)
  moreover have "p \<in> entry_name ` set lb" using assms(2) by force
  ultimately show ?thesis by (simp add: upsert_def)
qed

lemma files_write_file:
  "files (write_file fname content g) fname = (if writable g fname then Some content else files g fname)"
  by (simp add: write_file_def)

lemma saveToLeaderboard_eq:
  assumes "distinct (map entry_name (leaderboard g))" and "score g > 0"
  shows "saveToLeaderboard srt g =
           write_file ''scores.txt''
             (write_leaderboard (take 10 (srt (upsert (playerName g) (score g) (leaderboard g)))))
             (g\<lparr>leaderboard := take 10 (srt (upsert (playerName g) (score g) (leaderboard g)))\<rparr>)"
proof -
  have t: "(if length xs > 10 then take 10 xs else xs) = take 10 xs" for xs :: "ScoreEntry list"
    by simp
  show ?thesis
  proof (cases "playerName g \<in> entry_name ` set (leaderboard g)")
    case True
    with assms(2) show ?thesis
      by (simp add: saveToLeaderboard_def upsert_loop_eq [OF assms(1)] upsert_def Let_def
          MAX_LEADERBOARD_ENTRIES_def)
  next
    case False
    with assms(2) show ?thesis
      by (simp add: saveToLeaderboard_def upsert_loop_eq [OF assms(1)] upsert_def Let_def
          MAX_LEADERBOARD_ENTRIES_def map_raise_to_other)
  qed
qed

text \<open>
  C6 (as amended). saveToLeaderboard, for a score > 0 (and the leaderboard holding one
  entry per name, as loadLeaderboard and saveToLeaderboard leave it): the entry of the
  current player is upserted keeping the higher score, the list is sorted by descending
  score and truncated to the first 10, and the leaderboard file is rewritten with exactly
  this list (when the output stream opens). The upsert leaves the list as it is for a
  score not above the player's entry and replaces the entry for a higher one; while the
  list holds at most 10 entries the truncation removes nothing, so the entry (unchanged,
  or replaced) is in the new leaderboard. A longer list, which loadLeaderboard can
  produce, loses its last entries, the player's own among them if it ranks there.
\<close>

theorem saveToLeaderboard_upsert:
  assumes "std_sort_spec srt" and "distinct (map entry_name (leaderboard g))" and "score g > 0"
  shows "leaderboard (saveToLeaderboard srt g)
           = take 10 (srt (upsert (playerName g) (score g) (leaderboard g)))
     \<and> files (saveToLeaderboard srt g) ''scores.txt''
           = (if writable g ''scores.txt''
              then Some (write_leaderboard (leaderboard (saveToLeaderboard srt g)))
              else files g ''scores.txt'')
     \<and> sorted_wrt (\<lambda>a b. entry_score a \<ge> entry_score b) (leaderboard (saveToLeaderboard srt g))
     \<and> length (leaderboard (saveToLeaderboard srt g)) \<le> 10
     \<and> length (leaderboard (saveToLeaderboard srt g))
           = min 10 (length (upsert (playerName g) (score g) (leaderboard g)))
     \<and> distinct (map entry_name (leaderboard (saveToLeaderboard srt g)))
     \<and> (playerName g \<notin> entry_name ` set (leaderboard g) \<longrightarrow>
           upsert (playerName g) (score g) (leaderboard g)
             = leaderboard g @ [\<lparr>entry_name = playerName g, entry_score = score g\<rparr>])
     \<and> (\<lparr>entry_name = playerName g, entry_score = old\<rparr> \<in> set (leaderboard g) \<and> score g \<le> old \<longrightarrow>
           upsert (playerName g) (score g) (leaderboard g) = leaderboard g
           \<and> (length (leaderboard g) \<le> 10 \<longrightarrow>
                \<lparr>entry_name = playerName g, entry_score = old\<rparr> \<in> set (leaderboard (saveToLeaderboard srt g))))
     \<and> (\<lparr>entry_name = playerName g, entry_score = old\<rparr> \<in> set (leaderboard g) \<and> old < score g \<longrightarrow>
           set (upsert (playerName g) (score g) (leaderboard g))
             = insert \<lparr>entry_name = playerName g, entry_score = score g\<rparr>
                 (set (leaderboard g) - {\<lparr>entry_name = playerName g, entry_score = old\<rparr>})
           \<and> (length (leaderboard g) \<le> 10 \<longrightarrow>
                \<lparr>entry_name = playerName g, entry_score = score g\<rparr> \<in> set (leaderboard (saveToLeaderboard srt g))
                \<and> \<lparr>entry_name = playerName g, entry_score = old\<rparr> \<notin> set (leaderboard (saveToLeaderboard srt g))))"
proof -
  define p where "p = playerName g"
  define sc where "sc = score g"
  define lb where "lb = leaderboard g"
  define up where "up = upsert p sc lb"
  define lb' where "lb' = leaderboard (saveToLeaderboard srt g)"
  note eq = saveToLeaderboard_eq [OF assms(2,3), of srt]
  have d: "distinct (map entry_name lb)" using assms(2) by (simp add: lb_def)
  have 1: "lb' = take 10 (srt up)"
    by (simp add: lb'_def eq up_def p_def sc_def lb_def)
  have 2: "files (saveToLeaderboard srt g) ''scores.txt''
           = (if writable g ''scores.txt'' then Some (write_leaderboard lb') else files g ''scores.txt'')"
    unfolding 1 by (simp add: eq files_write_file up_def p_def sc_def lb_def)
  have 3: "sorted_wrt (\<lambda>a b. entry_score a \<ge> entry_score b) lb'"
    unfolding 1 by (rule sorted_wrt_take) (rule std_sort_desc [OF assms(1)])
  have 4: "length lb' \<le> 10" by (simp add: 1)
  have len: "length lb' = min 10 (length up)" by (simp add: 1 std_sort_length [OF assms(1)])
  have "distinct (map entry_name (srt up))"
    by (simp add: std_sort_distinct [OF assms(1)] up_def distinct_upsert [OF d])
  then have 5: "distinct (map entry_name lb')"
    unfolding 1 by (simp add: take_map [symmetric])
  have 6: "p \<notin> entry_name ` set lb \<longrightarrow> up = lb @ [\<lparr>entry_name = p, entry_score = sc\<rparr>]"
    by (simp add: up_def upsert_def)
  have same_len: "\<lparr>entry_name = p, entry_score = old\<rparr> \<in> set lb \<Longrightarrow> length lb \<le> 10 \<Longrightarrow> set lb' = set up"
  proof -
    assume m: "\<lparr>entry_name = p, entry_score = old\<rparr> \<in> set lb" and l: "length lb \<le> 10"
    from m have "p \<in> entry_name ` set lb" by force
    then have "length up = length lb" by (simp add: up_def upsert_def)
    with l have "length (srt up) \<le> 10" by (simp add: std_sort_length [OF assms(1)])
    then show ?thesis by (simp add: 1 std_sort_set [OF assms(1)])
  qed
  have 7: "\<lparr>entry_name = p, entry_score = old\<rparr> \<in> set lb \<and> sc \<le> old \<longrightarrow>
           up = lb \<and> (length lb \<le> 10 \<longrightarrow> \<lparr>entry_name = p, entry_score = old\<rparr> \<in> set lb')"
    using upsert_lower [OF d, of p old sc] same_len by (auto simp: up_def)
  have 8: "\<lparr>entry_name = p, entry_score = old\<rparr> \<in> set lb \<and> old < sc \<longrightarrow>
           set up = insert \<lparr>entry_name = p, entry_score = sc\<rparr> (set lb - {\<lparr>entry_name = p, entry_score = old\<rparr>})
           \<and> (length lb \<le> 10 \<longrightarrow>
                \<lparr>entry_name = p, entry_score = sc\<rparr> \<in> set lb'
                \<and> \<lparr>entry_name = p, entry_score = old\<rparr> \<notin> set lb')"
    using upsert_higher [OF d, of p old sc] same_len by (auto simp: up_def)
  from 1 2 3 4 len 5 6 7 8 show ?thesis
    unfolding lb'_def up_def lb_def sc_def p_def by blast
qed

text \<open>
  The claim as first stated ("recording a score lower than the player's existing entry
  leaves that entry's score unchanged, and recording a higher one replaces it and re-sorts
  it to its rank") fails on a leaderboard of more than 10 entries. \<open>game_long\<close> holds the
  eleven entries loaded from \<open>scores_txt_long\<close>, the player \<open>a\<close> last with 10 points.
  Recording 5 (lower) and recording 15 (higher, still the lowest score) both leave the ten
  entries \<open>k\<close> to \<open>b\<close>: the player has no entry any more, in memory or in the file.
\<close>

theorem saveToLeaderboard_upsert_counterexample:
  "playerName game_long = ''a''
   \<and> leaderboard game_long =
     [\<lparr>entry_name = ''k'', entry_score = 110\<rparr>, \<lparr>entry_name = ''j'', entry_score = 100\<rparr>,
      \<lparr>entry_name = ''i'', entry_score = 90\<rparr>, \<lparr>entry_name = ''h'', entry_score = 80\<rparr>,
      \<lparr>entry_name = ''g'', entry_score = 70\<rparr>, \<lparr>entry_name = ''f'', entry_score = 60\<rparr>,
      \<lparr>entry_name = ''e'', entry_score = 50\<rparr>, \<lparr>entry_name = ''d'', entry_score = 40\<rparr>,
      \<lparr>entry_name = ''c'', entry_score = 30\<rparr>, \<lparr>entry_name = ''b'', entry_score = 20\<rparr>,
      \<lparr>entry_name = ''a'', entry_score = 10\<rparr>]
   \<and> map entry_name (leaderboard (saveToLeaderboard insertion_sort (game_long\<lparr>score := 5\<rparr>)))
       = [''k'', ''j'', ''i'', ''h'', ''g'', ''f'', ''e'', ''d'', ''c'', ''b'']
   \<and> map entry_name (leaderboard (saveToLeaderboard insertion_sort (game_long\<lparr>score := 15\<rparr>)))
       = [''k'', ''j'', ''i'', ''h'', ''g'', ''f'', ''e'', ''d'', ''c'', ''b'']
   \<and> files (saveToLeaderboard insertion_sort (game_long\<lparr>score := 5\<rparr>)) ''scores.txt'' =
     Some (''k 110'' @ [CHR 0x0A] @ ''j 100'' @ [CHR 0x0A] @ ''i 90'' @ [CHR 0x0A] @ ''h 80'' @ [CHR 0x0A]
     @ ''g 70'' @ [CHR 0x0A] @ ''f 60'' @ [CHR 0x0A] @ ''e 50'' @ [CHR 0x0A] @ ''d 40'' @ [CHR 0x0A]
     @ ''c 30'' @ [CHR 0x0A] @ ''b 20'' @ [CHR 0x0A])
   \<and> files (saveToLeaderboard insertion_sort (game_long\<lparr>score := 15\<rparr>)) ''scores.txt'' =
     Some (''k 110'' @ [CHR 0x0A] @ ''j 100'' @ [CHR 0x0A] @ ''i 90'' @ [CHR 0x0A] @ ''h 80'' @ [CHR 0x0A]
     @ ''g 70'' @ [CHR 0x0A] @ ''f 60'' @ [CHR 0x0A] @ ''e 50'' @ [CHR 0x0A] @ ''d 40'' @ [CHR 0x0A]
     @ ''c 30'' @ [CHR 0x0A] @ ''b 20'' @ [CHR 0x0A])"
proof -
  have 1: "playerName game_long = ''a''" by code_simp
  have 2: "leaderboard game_long =
     [\<lparr>entry_name = ''k'', entry_score = 110\<rparr>, \<lparr>entry_name = ''j'', entry_score = 100\<rparr>,
      \<lparr>entry_name = ''i'', entry_score = 90\<rparr>, \<lparr>entry_name = ''h'', entry_score = 80\<rparr>,
      \<lparr>entry_name = ''g'', entry_score = 70\<rparr>, \<lparr>entry_name = ''f'', entry_score = 60\<rparr>,
      \<lparr>entry_name = ''e'', entry_score = 50\<rparr>, \<lparr>entry_name = ''d'', entry_score = 40\<rparr>,
      \<lparr>entry_name = ''c'', entry_score = 30\<rparr>, \<lparr>entry_name = ''b'', entry_score = 20\<rparr>,
      \<lparr>entry_name = ''a'', entry_score = 10\<rparr>]"
    by code_simp
  have 3: "map entry_name (leaderboard (saveToLeaderboard insertion_sort (game_long\<lparr>score := 5\<rparr>)))
       = [''k'', ''j'', ''i'', ''h'', ''g'', ''f'', ''e'', ''d'', ''c'', ''b'']"
    by code_simp
  have 4: "map entry_name (leaderboard (saveToLeaderboard insertion_sort (game_long\<lparr>score := 15\<rparr>)))
       = [''k'', ''j'', ''i'', ''h'', ''g'', ''f'', ''e'', ''d'', ''c'', ''b'']"
    by code_simp
  have 5: "files (saveToLeaderboard insertion_sort (game_long\<lparr>score := 5\<rparr>)) ''scores.txt'' =
     Some (''k 110'' @ [CHR 0x0A] @ ''j 100'' @ [CHR 0x0A] @ ''i 90'' @ [CHR 0x0A] @ ''h 80'' @ [CHR 0x0A]
     @ ''g 70'' @ [CHR 0x0A] @ ''f 60'' @ [CHR 0x0A] @ ''e 50'' @ [CHR 0x0A] @ ''d 40'' @ [CHR 0x0A]
     @ ''c 30'' @ [CHR 0x0A] @ ''b 20'' @ [CHR 0x0A])"
    by code_simp
  have 6: "files (saveToLeaderboard insertion_sort (game_long\<lparr>score := 15\<rparr>)) ''scores.txt'' =
     Some (''k 110'' @ [CHR 0x0A] @ ''j 100'' @ [CHR 0x0A] @ ''i 90'' @ [CHR 0x0A] @ ''h 80'' @ [CHR 0x0A]
     @ ''g 70'' @ [CHR 0x0A] @ ''f 60'' @ [CHR 0x0A] @ ''e 50'' @ [CHR 0x0A] @ ''d 40'' @ [CHR 0x0A]
     @ ''c 30'' @ [CHR 0x0A] @ ''b 20'' @ [CHR 0x0A])"
    by code_simp
  from 1 2 3 4 5 6 show ?thesis by (intro conjI)
qed

lemma leaderboard_game_scored:
  "leaderboard game_scored = [\<lparr>entry_name = ''a'', entry_score = 50\<rparr>, \<lparr>entry_name = ''b'', entry_score = 30\<rparr>]"
  "playerName game_scored = ''a''" "score game_scored = 40"
  "leaderboard (game_scored\<lparr>score := 60\<rparr>) = leaderboard game_scored"
  "playerName (game_scored\<lparr>score := 60\<rparr>) = ''a''"
  by (simp_all add: game_scored_def)

theorem saveToLeaderboard_upsert_witness:
  "std_sort_spec insertion_sort
   \<and> distinct (map entry_name (leaderboard game_scored))
   \<and> score game_scored = 40
   \<and> \<lparr>entry_name = ''a'', entry_score = 50\<rparr> \<in> set (leaderboard game_scored)
   \<and> \<lparr>entry_name = ''a'', entry_score = 50\<rparr> \<in> set (leaderboard (saveToLeaderboard insertion_sort game_scored))
   \<and> leaderboard (saveToLeaderboard insertion_sort game_scored)
       = [\<lparr>entry_name = ''a'', entry_score = 50\<rparr>, \<lparr>entry_name = ''b'', entry_score = 30\<rparr>]
   \<and> files (saveToLeaderboard insertion_sort game_scored) ''scores.txt''
       = Some (''a 50'' @ [CHR 0x0A] @ ''b 30'' @ [CHR 0x0A])
   \<and> \<lparr>entry_name = ''a'', entry_score = 60\<rparr>
       \<in> set (leaderboard (saveToLeaderboard insertion_sort (game_scored\<lparr>score := 60\<rparr>)))
   \<and> \<lparr>entry_name = ''a'', entry_score = 50\<rparr>
       \<notin> set (leaderboard (saveToLeaderboard insertion_sort (game_scored\<lparr>score := 60\<rparr>)))"
proof -
  have d: "distinct (map entry_name (leaderboard game_scored))"
    by (simp add: leaderboard_game_scored)
  have d60: "distinct (map entry_name (leaderboard (game_scored\<lparr>score := 60\<rparr>)))"
    by (simp add: leaderboard_game_scored)
  have pos: "score game_scored > 0" "score (game_scored\<lparr>score := 60\<rparr>) > 0"
    by (simp_all add: leaderboard_game_scored)
  have m: "\<lparr>entry_name = ''a'', entry_score = 50\<rparr> \<in> set (leaderboard game_scored)"
    by (simp add: leaderboard_game_scored)
  have pn: "playerName game_scored = ''a''" "playerName (game_scored\<lparr>score := 60\<rparr>) = ''a''"
    by (simp_all add: leaderboard_game_scored)
  note low = saveToLeaderboard_upsert [OF insertion_sort_spec d pos(1), where old = 50, unfolded pn]
  note high = saveToLeaderboard_upsert [OF insertion_sort_spec d60 pos(2), where old = 50, unfolded pn]
  have pre: "\<lparr>entry_name = ''a'', entry_score = 50\<rparr> \<in> set (leaderboard game_scored) \<and> score game_scored \<le> 50"
    "length (leaderboard game_scored) \<le> 10"
    by (simp_all add: leaderboard_game_scored)
  have pre60: "\<lparr>entry_name = ''a'', entry_score = 50\<rparr> \<in> set (leaderboard (game_scored\<lparr>score := 60\<rparr>))
      \<and> 50 < score (game_scored\<lparr>score := 60\<rparr>)"
    "length (leaderboard (game_scored\<lparr>score := 60\<rparr>)) \<le> 10"
    by (simp_all add: leaderboard_game_scored)
  have keep: "\<lparr>entry_name = ''a'', entry_score = 50\<rparr> \<in> set (leaderboard (saveToLeaderboard insertion_sort game_scored))"
    using low pre by blast
  have up: "upsert ''a'' (score game_scored) (leaderboard game_scored) = leaderboard game_scored"
    using low pre by blast
  then have up': "upsert ''a'' 40 [\<lparr>entry_name = ''a'', entry_score = 50\<rparr>, \<lparr>entry_name = ''b'', entry_score = 30\<rparr>]
      = [\<lparr>entry_name = ''a'', entry_score = 50\<rparr>, \<lparr>entry_name = ''b'', entry_score = 30\<rparr>]"
    by (simp add: leaderboard_game_scored)
  have "leaderboard (saveToLeaderboard insertion_sort game_scored)
      = take 10 (insertion_sort (upsert ''a'' (score game_scored) (leaderboard game_scored)))"
    using low by blast
  then have lb: "leaderboard (saveToLeaderboard insertion_sort game_scored)
       = [\<lparr>entry_name = ''a'', entry_score = 50\<rparr>, \<lparr>entry_name = ''b'', entry_score = 30\<rparr>]"
    by (simp add: up' leaderboard_game_scored insertion_sort_def entry_less_def)
  have w: "writable game_scored ''scores.txt''" by (simp add: game_scored_def game0_def)
  have sh: "show_int 50 = ''50''" "show_int 30 = ''30''" by code_simp+
  have "files (saveToLeaderboard insertion_sort game_scored) ''scores.txt''
      = (if writable game_scored ''scores.txt''
         then Some (write_leaderboard (leaderboard (saveToLeaderboard insertion_sort game_scored)))
         else files game_scored ''scores.txt'')"
    using low by blast
  then have fl: "files (saveToLeaderboard insertion_sort game_scored) ''scores.txt''
       = Some (''a 50'' @ [CHR 0x0A] @ ''b 30'' @ [CHR 0x0A])"
    by (simp add: w lb write_leaderboard_def score_line_def sh)
  have repl: "\<lparr>entry_name = ''a'', entry_score = 60\<rparr>
       \<in> set (leaderboard (saveToLeaderboard insertion_sort (game_scored\<lparr>score := 60\<rparr>)))
   \<and> \<lparr>entry_name = ''a'', entry_score = 50\<rparr>
       \<notin> set (leaderboard (saveToLeaderboard insertion_sort (game_scored\<lparr>score := 60\<rparr>)))"
  proof -
    have s60: "score (game_scored\<lparr>score := 60\<rparr>) = 60" by simp
    from high pre60 show ?thesis unfolding s60 by blast
  qed
  from insertion_sort_spec d m keep lb fl repl show ?thesis
    by (simp add: leaderboard_game_scored)
qed

end
